theory Spec2Isabelle
  imports Complex_Main "HOL-Library.FSet"
begin

section \<open>Coordinates, errors and arrays\<close>

text \<open>
  A coordinate is a pair of Python integers \<open>(row, col)\<close>.  Neighbour arithmetic may leave
  the grid (row \<open>-1\<close>), so the components are \<open>int\<close>.
\<close>

type_synonym coord = "int \<times> int"

text \<open>The exceptions that the generators can raise.\<close>

datatype error = ValueError | IndexError | AssertionError

text \<open>
  A connection list is a boolean array of shape \<open>(lattice_dim, rows, cols)\<close>, kept as
  nested lists: \<open>cl ! d ! r ! c\<close> is \<open>connection_list[d, r, c]\<close>.
\<close>

type_synonym conn_list = "bool list list list"

text \<open>\<open>np.zeros((d, r, c), dtype=bool)\<close>: a negative dimension raises \<open>ValueError\<close>.\<close>

definition np_zeros3 :: "int \<Rightarrow> int \<Rightarrow> int \<Rightarrow> error + conn_list" where
  "np_zeros3 d r c =
     (if d < 0 \<or> r < 0 \<or> c < 0 then Inl ValueError
      else Inr (replicate (nat d) (replicate (nat r) (replicate (nat c) False))))"

text \<open>
  Resolution of one numpy integer index against an axis of length \<open>n\<close>: indices
  \<open>0 .. n-1\<close> address directly, \<open>-n .. -1\<close> wrap around from the end, everything else
  raises \<open>IndexError\<close> (here: \<open>None\<close>).
\<close>

definition np_index :: "nat \<Rightarrow> int \<Rightarrow> nat option" where
  "np_index n i =
     (if 0 \<le> i \<and> i < int n then Some (nat i)
      else if - int n \<le> i \<and> i < 0 then Some (nat (i + int n))
      else None)"

text \<open>\<open>connection_list[d, r, c] = True\<close> with numpy index resolution on every axis.\<close>

definition cl_set_true :: "conn_list \<Rightarrow> int \<Rightarrow> int \<Rightarrow> int \<Rightarrow> error + conn_list" where
  "cl_set_true cl d r c =
     (case np_index (length cl) d of
        None \<Rightarrow> Inl IndexError
      | Some d' \<Rightarrow>
          (case np_index (length (cl ! d')) r of
             None \<Rightarrow> Inl IndexError
           | Some r' \<Rightarrow>
               (case np_index (length (cl ! d' ! r')) c of
                  None \<Rightarrow> Inl IndexError
                | Some c' \<Rightarrow> Inr (cl[d' := (cl ! d')[r' := (cl ! d' ! r')[c' := True]]]))))"

text \<open>Reading \<open>connection_list[d, r, c]\<close> at natural-number positions; outside the array
  there is no edge.\<close>

definition cl_get :: "conn_list \<Rightarrow> nat \<Rightarrow> nat \<Rightarrow> nat \<Rightarrow> bool" where
  "cl_get cl d r c =
     (d < length cl \<and> r < length (cl ! d) \<and> c < length (cl ! d ! r) \<and> cl ! d ! r ! c)"

section \<open>The random start coordinate\<close>

text \<open>
  \<open>_random_start_coord(grid_shape, start_coord)\<close>.  When \<open>start_coord\<close> is \<open>None\<close> the
  source calls \<open>np.random.randint(0, np.maximum(grid_shape - 1, 1), size=2)\<close>.  numpy's
  \<open>randint(low, high)\<close> draws from the half-open interval \<open>[low, high)\<close>; the pair \<open>u\<close> holds
  the two raw values of the random source, each reduced into that interval.  The upper
  bound is at least \<open>1\<close>, so the call cannot raise.
\<close>

definition random_start_coord :: "coord \<Rightarrow> coord option \<Rightarrow> nat \<times> nat \<Rightarrow> coord" where
  "random_start_coord grid_shape start_coord u =
     (case start_coord of
        None \<Rightarrow>
          (int (fst u mod nat (max (fst grid_shape - 1) 1)),
           int (snd u mod nat (max (snd grid_shape - 1) 1)))
      | Some sc \<Rightarrow> sc)"

section \<open>The maze value\<close>

text \<open>
  \<open>generation_meta\<close> is a Python dict with string keys; each generator writes a fixed set of
  keys, so the dict is a record whose optional keys are \<open>option\<close> fields.
\<close>

record generation_meta =
  meta_func_name :: string
  meta_grid_shape :: coord
  meta_start_coord :: "coord option"
  meta_n_accessible_cells :: "int option"
  meta_max_tree_depth :: "int option"
  meta_fully_connected :: "bool option"
  meta_visited_cells :: "coord set option"
  meta_percolation_p :: "real option"

record lattice_maze =
  connection_list :: conn_list
  generation_meta :: generation_meta

section \<open>The depth-first-search generator\<close>

text \<open>
  Modelled from the spec: \<open>NEIGHBORS_MASK\<close> is imported from
  \<open>maze_dataset.maze.lattice_maze\<close>, which is not among the sources; the spec calls it
  "the fixed 4-neighbor offset set".  The four unit offsets are listed right, left, down, up.
\<close>

definition NEIGHBORS_MASK :: "coord list" where
  "NEIGHBORS_MASK = [(0, 1), (0, - 1), (1, 0), (- 1, 0)]"

text \<open>The list comprehension of lines 92-102: neighbours that are unvisited and in bounds,
  each paired with its offset.\<close>

definition unvisited_neighbors_deltas ::
  "coord \<Rightarrow> coord fset \<Rightarrow> coord \<Rightarrow> (coord \<times> coord) list" where
  "unvisited_neighbors_deltas grid_shape visited current_coord =
     filter (\<lambda>(neighbor, delta).
               neighbor |\<notin>| visited
               \<and> 0 \<le> fst neighbor \<and> fst neighbor < fst grid_shape
               \<and> 0 \<le> snd neighbor \<and> snd neighbor < snd grid_shape)
       (map (\<lambda>delta. ((fst current_coord + fst delta, snd current_coord + snd delta), delta))
          NEIGHBORS_MASK)"

text \<open>\<open>random.choice(xs)\<close> on a non-empty list, from one raw value of the random source.\<close>

definition random_choice :: "'a list \<Rightarrow> nat \<Rightarrow> 'a" where
  "random_choice xs u = xs ! (u mod length xs)"

text \<open>\<open>np.argmax(np.abs(delta))\<close> on a pair: the first position holding the maximum.\<close>

definition argmax_abs :: "coord \<Rightarrow> int" where
  "argmax_abs delta = (if \<bar>snd delta\<bar> \<le> \<bar>fst delta\<bar> then 0 else 1)"

text \<open>
  The variables that the main loop of \<open>gen_dfs\<close> mutates.  The Python list \<open>stack\<close> grows
  and shrinks at its end: \<open>pop()\<close> is \<open>last\<close>/\<open>butlast\<close>, \<open>append x\<close> is \<open>@ [x]\<close>.
  \<open>dfs_n_choices\<close> counts the calls of \<open>random.choice\<close> made so far; the \<open>k\<close>-th call
  reads the raw value \<open>rnd k\<close> of the random source.
\<close>

record dfs_state =
  dfs_connection_list :: conn_list
  dfs_visited_cells :: "coord fset"
  dfs_stack :: "coord list"
  dfs_current_tree_depth :: int
  dfs_n_choices :: nat

text \<open>
  One iteration of the body of the \<open>while\<close> loop (lines 88-131).  The test
  \<open>current_tree_depth <= max_tree_depth / 2\<close> uses Python's true division.
\<close>

definition dfs_step :: "coord \<Rightarrow> int \<Rightarrow> bool \<Rightarrow> (nat \<Rightarrow> nat) \<Rightarrow> dfs_state \<Rightarrow> error + dfs_state" where
  "dfs_step grid_shape max_tree_depth do_forks rnd s =
     (let current_coord = last (dfs_stack s);
          stack1 = butlast (dfs_stack s);
          und = unvisited_neighbors_deltas grid_shape (dfs_visited_cells s) current_coord
      in if und \<noteq> [] \<and> real_of_int (dfs_current_tree_depth s) \<le> real_of_int max_tree_depth / 2
         then
           (let stack2 = (if do_forks then stack1 @ [current_coord] else stack1);
                chosen = random_choice und (rnd (dfs_n_choices s));
                chosen_neighbor = fst chosen;
                delta = snd chosen;
                dim = argmax_abs delta;
                clist_node = (if fst delta + snd delta > 0 then current_coord else chosen_neighbor)
            in case cl_set_true (dfs_connection_list s) dim (fst clist_node) (snd clist_node) of
                 Inl e \<Rightarrow> Inl e
               | Inr cl \<Rightarrow>
                   Inr \<lparr>dfs_connection_list = cl,
                        dfs_visited_cells = finsert chosen_neighbor (dfs_visited_cells s),
                        dfs_stack = stack2 @ [chosen_neighbor],
                        dfs_current_tree_depth = dfs_current_tree_depth s + 1,
                        dfs_n_choices = Suc (dfs_n_choices s)\<rparr>)
         else Inr (s\<lparr>dfs_stack := stack1,
                     dfs_current_tree_depth := dfs_current_tree_depth s - 1\<rparr>))"

text \<open>The loop condition \<open>stack and (len(visited_cells) < n_accessible_cells)\<close>.\<close>

definition dfs_cond :: "int \<Rightarrow> dfs_state \<Rightarrow> bool" where
  "dfs_cond n_accessible_cells s =
     (dfs_stack s \<noteq> [] \<and> int (fcard (dfs_visited_cells s)) < n_accessible_cells)"

text \<open>
  The termination argument of the loop: an iteration either visits a new cell, which
  shrinks the room left below \<open>n_accessible_cells\<close>, or leaves the visited set alone and
  shortens the stack.
\<close>

definition dfs_variant :: "int \<Rightarrow> dfs_state \<Rightarrow> nat \<times> nat" where
  "dfs_variant n_accessible_cells s =
     (nat (n_accessible_cells - int (fcard (dfs_visited_cells s))), length (dfs_stack s))"

lemma random_choice_in_set: "xs \<noteq> [] \<Longrightarrow> random_choice xs u \<in> set xs"
  by (simp add: random_choice_def)

lemma unvisited_neighbors_deltas_fresh:
  "(nb, d) \<in> set (unvisited_neighbors_deltas gs vis cur) \<Longrightarrow> nb |\<notin>| vis"
  by (auto simp: unvisited_neighbors_deltas_def)

lemma dfs_step_progress:
  assumes "dfs_step gs mtd forks rnd s = Inr s'" and "dfs_stack s \<noteq> []"
  shows "fcard (dfs_visited_cells s') = Suc (fcard (dfs_visited_cells s))
         \<or> (dfs_visited_cells s' = dfs_visited_cells s
            \<and> length (dfs_stack s') < length (dfs_stack s))"
proof (cases "unvisited_neighbors_deltas gs (dfs_visited_cells s) (last (dfs_stack s)) \<noteq> []
              \<and> real_of_int (dfs_current_tree_depth s) \<le> real_of_int mtd / 2")
  case True
  let ?und = "unvisited_neighbors_deltas gs (dfs_visited_cells s) (last (dfs_stack s))"
  let ?ch = "random_choice ?und (rnd (dfs_n_choices s))"
  from True have "?ch \<in> set ?und" by (simp add: random_choice_in_set)
  then have fresh: "fst ?ch |\<notin>| dfs_visited_cells s"
    using unvisited_neighbors_deltas_fresh [of "fst ?ch" "snd ?ch"] by simp
  from assms(1) True have "dfs_visited_cells s' = finsert (fst ?ch) (dfs_visited_cells s)"
    by (auto simp: dfs_step_def Let_def split: sum.splits)
  with fresh show ?thesis by (simp add: fcard_finsert_disjoint)
next
  case False
  with assms have "s' = s\<lparr>dfs_stack := butlast (dfs_stack s),
                          dfs_current_tree_depth := dfs_current_tree_depth s - 1\<rparr>"
    by (auto simp: dfs_step_def Let_def)
  with assms(2) show ?thesis by simp
qed

lemma dfs_step_variant:
  assumes "dfs_cond n s" and "dfs_step gs mtd forks rnd s = Inr s'"
  shows "(dfs_variant n s', dfs_variant n s) \<in> less_than <*lex*> less_than"
  using dfs_step_progress [OF assms(2)] assms(1)
  by (auto simp: dfs_variant_def dfs_cond_def)

text \<open>The \<open>while\<close> loop of lines 87-131.  An exception raised by the body leaves the loop.\<close>

function dfs_loop ::
  "coord \<Rightarrow> int \<Rightarrow> int \<Rightarrow> bool \<Rightarrow> (nat \<Rightarrow> nat) \<Rightarrow> dfs_state \<Rightarrow> error + dfs_state" where
  "dfs_loop grid_shape n_accessible_cells max_tree_depth do_forks rnd s =
     (if dfs_cond n_accessible_cells s then
        (case dfs_step grid_shape max_tree_depth do_forks rnd s of
           Inl e \<Rightarrow> Inl e
         | Inr s' \<Rightarrow> dfs_loop grid_shape n_accessible_cells max_tree_depth do_forks rnd s')
      else Inr s)"
  by pat_completeness auto
termination
proof (relation "inv_image (less_than <*lex*> less_than)
                   (\<lambda>(gs, n, mtd, forks, rnd, s). dfs_variant n s)")
  show "wf (inv_image (less_than <*lex*> less_than)
              (\<lambda>(gs, n, mtd, forks, rnd, s). dfs_variant n s))"
    by (intro wf_inv_image wf_lex_prod wf_less_than)
next
  fix grid_shape :: coord and n_accessible_cells max_tree_depth :: int and do_forks :: bool
    and rnd :: "nat \<Rightarrow> nat" and s s' :: dfs_state
  assume "dfs_cond n_accessible_cells s"
    and "dfs_step grid_shape max_tree_depth do_forks rnd s = Inr s'"
  then show "((grid_shape, n_accessible_cells, max_tree_depth, do_forks, rnd, s'),
              (grid_shape, n_accessible_cells, max_tree_depth, do_forks, rnd, s))
             \<in> inv_image (less_than <*lex*> less_than)
                 (\<lambda>(gs, n, mtd, forks, rnd, s). dfs_variant n s)"
    using dfs_step_variant by simp
qed

declare dfs_loop.simps [simp del]

text \<open>
  \<open>gen_dfs\<close> (lines 61-144).  \<open>u\<close> is the pair of raw values read by
  \<open>_random_start_coord\<close>, \<open>rnd\<close> the stream of raw values read by \<open>random.choice\<close>.
\<close>

definition gen_dfs ::
  "coord \<Rightarrow> int \<Rightarrow> int option \<Rightarrow> int option \<Rightarrow> bool \<Rightarrow> coord option
     \<Rightarrow> nat \<times> nat \<Rightarrow> (nat \<Rightarrow> nat) \<Rightarrow> error + lattice_maze" where
  "gen_dfs grid_shape lattice_dim n_accessible_cells max_tree_depth do_forks start_coord u rnd =
     (let n_total_cells = fst grid_shape * snd grid_shape;
          n_acc = (case n_accessible_cells of None \<Rightarrow> n_total_cells | Some n \<Rightarrow> n);
          mtd = (case max_tree_depth of None \<Rightarrow> 2 * n_total_cells | Some m \<Rightarrow> m);
          start = random_start_coord grid_shape start_coord u
      in case np_zeros3 lattice_dim (fst grid_shape) (snd grid_shape) of
           Inl e \<Rightarrow> Inl e
         | Inr cl0 \<Rightarrow>
             (case dfs_loop grid_shape n_acc mtd do_forks rnd
                     \<lparr>dfs_connection_list = cl0,
                      dfs_visited_cells = {|start|},
                      dfs_stack = [start],
                      dfs_current_tree_depth = 1,
                      dfs_n_choices = 0\<rparr> of
                Inl e \<Rightarrow> Inl e
              | Inr s \<Rightarrow>
                  Inr \<lparr>connection_list = dfs_connection_list s,
                       generation_meta =
                         \<lparr>meta_func_name = ''gen_dfs'',
                          meta_grid_shape = grid_shape,
                          meta_start_coord = Some start,
                          meta_n_accessible_cells = Some n_acc,
                          meta_max_tree_depth = Some mtd,
                          meta_fully_connected =
                            Some (int (fcard (dfs_visited_cells s)) = n_acc),
                          meta_visited_cells = Some (fset (dfs_visited_cells s)),
                          meta_percolation_p = None\<rparr>\<rparr>))"

section \<open>Wilson's algorithm\<close>

text \<open>\<open>random.randint(a, b)\<close>: both ends included; an empty range raises \<open>ValueError\<close>.
  \<open>u\<close> is the raw value of the random source.\<close>

definition randint :: "int \<Rightarrow> int \<Rightarrow> nat \<Rightarrow> error + int" where
  "randint a b u = (if b < a then Inl ValueError else Inr (a + int (u mod nat (b - a + 1))))"

text \<open>The local function \<open>neighbor(current, direction)\<close> of lines 159-173; \<open>rows\<close> and
  \<open>cols\<close> are the variables it closes over.\<close>

definition neighbor :: "int \<Rightarrow> int \<Rightarrow> coord \<Rightarrow> int \<Rightarrow> coord option" where
  "neighbor rows cols current direction =
     (let row = fst current; col = snd current;
          moved = (if direction = 0 then Some (row, col - 1)
                   else if direction = 1 then Some (row, col + 1)
                   else if direction = 2 then Some (row - 1, col)
                   else if direction = 3 then Some (row + 1, col)
                   else None)
      in case moved of
           None \<Rightarrow> None
         | Some rc \<Rightarrow>
             if 0 \<le> fst rc \<and> fst rc < rows \<and> 0 \<le> snd rc \<and> snd rc < cols then Some rc
             else None)"

text \<open>
  Reading and writing a two-dimensional array at a coordinate.  Every coordinate that
  \<open>gen_wilson\<close> uses as an index comes from \<open>randint(0, rows - 1)\<close>,
  \<open>randint(0, cols - 1)\<close> or from \<open>neighbor\<close>, which checks the bounds; such indices are
  never negative and never out of range.
\<close>

definition grid_get :: "'a list list \<Rightarrow> coord \<Rightarrow> 'a" where
  "grid_get g c = g ! nat (fst c) ! nat (snd c)"

definition grid_set :: "'a list list \<Rightarrow> coord \<Rightarrow> 'a \<Rightarrow> 'a list list" where
  "grid_set g c v = g[nat (fst c) := (g ! nat (fst c))[nat (snd c) := v]]"

text \<open>\<open>np.zeros(grid_shape)\<close> for a two-dimensional shape, filled with \<open>z\<close>.\<close>

definition np_zeros2 :: "'a \<Rightarrow> int \<Rightarrow> int \<Rightarrow> error + 'a list list" where
  "np_zeros2 z r c =
     (if r < 0 \<or> c < 0 then Inl ValueError
      else Inr (replicate (nat r) (replicate (nat c) z)))"

text \<open>
  Lines 192-195: draw cells until one is not connected.  \<open>k\<close> counts the raw values read
  from the random source \<open>rnd\<close>.  The loop has no bound: it is a partial function, and
  \<open>None\<close> means that it does not return.
\<close>

partial_function (option) pick_start ::
  "int \<Rightarrow> int \<Rightarrow> (nat \<Rightarrow> nat) \<Rightarrow> bool list list \<Rightarrow> nat \<Rightarrow> (error + coord \<times> nat) option" where
  "pick_start rows cols rnd connected_cells k =
     (case randint 0 (rows - 1) (rnd k) of
        Inl e \<Rightarrow> Some (Inl e)
      | Inr r \<Rightarrow>
          (case randint 0 (cols - 1) (rnd (k + 1)) of
             Inl e \<Rightarrow> Some (Inl e)
           | Inr c \<Rightarrow>
               if \<not> grid_get connected_cells (r, c) then Some (Inr ((r, c), k + 2))
               else pick_start rows cols rnd connected_cells (k + 2)))"

text \<open>Lines 210-212: turn the direction until \<open>neighbor\<close> yields a cell.\<close>

partial_function (option) find_direction ::
  "int \<Rightarrow> int \<Rightarrow> coord \<Rightarrow> int \<Rightarrow> (int \<times> coord) option" where
  "find_direction rows cols current direction =
     (case neighbor rows cols current direction of
        None \<Rightarrow> find_direction rows cols current ((direction + 1) mod 4)
      | Some next_cell \<Rightarrow> Some (direction, next_cell))"

text \<open>The variables of the random walk.\<close>

record walk_state =
  wk_direction_matrix :: "int list list"
  wk_visited :: "coord fset"
  wk_current :: coord
  wk_n_draws :: nat

text \<open>
  Lines 200-215: the random walk.  It stops when \<open>current\<close> is connected, and it also
  stops (\<open>break\<close>) when \<open>current\<close> was already visited by this walk.
\<close>

partial_function (option) random_walk ::
  "int \<Rightarrow> int \<Rightarrow> (nat \<Rightarrow> nat) \<Rightarrow> bool list list \<Rightarrow> walk_state \<Rightarrow> (error + walk_state) option"
  where
  "random_walk rows cols rnd connected_cells w =
     (if \<not> grid_get connected_cells (wk_current w) then
        (if wk_current w |\<in>| wk_visited w then Some (Inr w)
         else
           (case randint 0 3 (rnd (wk_n_draws w)) of
              Inl e \<Rightarrow> Some (Inl e)
            | Inr direction0 \<Rightarrow>
                (case find_direction rows cols (wk_current w) direction0 of
                   None \<Rightarrow> None
                 | Some (direction, next_cell) \<Rightarrow>
                     random_walk rows cols rnd connected_cells
                       \<lparr>wk_direction_matrix =
                          grid_set (wk_direction_matrix w) (wk_current w) direction,
                        wk_visited = finsert (wk_current w) (wk_visited w),
                        wk_current = next_cell,
                        wk_n_draws = Suc (wk_n_draws w)\<rparr>)))
      else Some (Inr w))"

text \<open>The variables of the retracing loop.\<close>

record retrace_state =
  rt_connection_list :: conn_list
  rt_connected :: "bool list list"
  rt_cells_left :: int
  rt_current :: coord

text \<open>
  Lines 221-239: retrace the path from the start.  \<open>current\<close> is never \<open>None\<close> here (it is
  the start or a cell returned by \<open>neighbor\<close>), so the loop test is \<open>not connected[current]\<close>.
\<close>

partial_function (option) retrace ::
  "int \<Rightarrow> int \<Rightarrow> int list list \<Rightarrow> retrace_state \<Rightarrow> retrace_state option" where
  "retrace rows cols direction_matrix r =
     (if \<not> grid_get (rt_connected r) (rt_current r) then
        (let current = rt_current r;
             direction = grid_get direction_matrix current;
             r1 = r\<lparr>rt_connected := grid_set (rt_connected r) current True,
                    rt_cells_left := rt_cells_left r - 1\<rparr>
         in case neighbor rows cols current direction of
              None \<Rightarrow> Some r1
            | Some next_cell \<Rightarrow>
                (let cl = rt_connection_list r;
                     cl1 = (if direction = 0 then cl[1 := grid_set (cl ! 1) next_cell True]
                            else if direction = 1 then cl[1 := grid_set (cl ! 1) current True]
                            else if direction = 2 then cl[0 := grid_set (cl ! 0) next_cell True]
                            else if direction = 3 then cl[0 := grid_set (cl ! 0) current True]
                            else cl)
                 in retrace rows cols direction_matrix
                      (r1\<lparr>rt_connection_list := cl1, rt_current := next_cell\<rparr>)))
      else Some r)"

text \<open>The variables of the outer loop of \<open>gen_wilson\<close>.\<close>

record wilson_state =
  w_connection_list :: conn_list
  w_connected :: "bool list list"
  w_direction_matrix :: "int list list"
  w_cells_left :: int
  w_n_draws :: nat

text \<open>
  The end of the random walk of one outer iteration (lines 189-215): the start cell and the
  walk's final variables, before the sentinel is written.
\<close>

definition wilson_walk ::
  "int \<Rightarrow> int \<Rightarrow> (nat \<Rightarrow> nat) \<Rightarrow> wilson_state \<Rightarrow> (error + coord \<times> walk_state) option" where
  "wilson_walk rows cols rnd s =
     (case pick_start rows cols rnd (w_connected s) (w_n_draws s) of
        None \<Rightarrow> None
      | Some (Inl e) \<Rightarrow> Some (Inl e)
      | Some (Inr (start, k)) \<Rightarrow>
          (case random_walk rows cols rnd (w_connected s)
                  \<lparr>wk_direction_matrix = w_direction_matrix s,
                   wk_visited = {||},
                   wk_current = start,
                   wk_n_draws = k\<rparr> of
             None \<Rightarrow> None
           | Some (Inl e) \<Rightarrow> Some (Inl e)
           | Some (Inr w) \<Rightarrow> Some (Inr (start, w))))"

text \<open>One iteration of the outer loop (lines 189-239): walk, write the sentinel \<open>4\<close> at the
  cell where the walk stopped, retrace.\<close>

definition wilson_iteration ::
  "int \<Rightarrow> int \<Rightarrow> (nat \<Rightarrow> nat) \<Rightarrow> wilson_state \<Rightarrow> (error + wilson_state) option" where
  "wilson_iteration rows cols rnd s =
     (case wilson_walk rows cols rnd s of
        None \<Rightarrow> None
      | Some (Inl e) \<Rightarrow> Some (Inl e)
      | Some (Inr (start, w)) \<Rightarrow>
          (let direction_matrix = grid_set (wk_direction_matrix w) (wk_current w) 4
           in case retrace rows cols direction_matrix
                     \<lparr>rt_connection_list = w_connection_list s,
                      rt_connected = w_connected s,
                      rt_cells_left = w_cells_left s,
                      rt_current = start\<rparr> of
                None \<Rightarrow> None
              | Some r \<Rightarrow>
                  Some (Inr \<lparr>w_connection_list = rt_connection_list r,
                             w_connected = rt_connected r,
                             w_direction_matrix = direction_matrix,
                             w_cells_left = rt_cells_left r,
                             w_n_draws = wk_n_draws w\<rparr>)))"

text \<open>The outer loop \<open>while cells_left > 0\<close>.\<close>

partial_function (option) wilson_loop ::
  "int \<Rightarrow> int \<Rightarrow> (nat \<Rightarrow> nat) \<Rightarrow> wilson_state \<Rightarrow> (error + wilson_state) option" where
  "wilson_loop rows cols rnd s =
     (if w_cells_left s > 0 then
        (case wilson_iteration rows cols rnd s of
           None \<Rightarrow> None
         | Some (Inl e) \<Rightarrow> Some (Inl e)
         | Some (Inr s') \<Rightarrow> wilson_loop rows cols rnd s')
      else Some (Inr s))"

declare pick_start.simps [code] find_direction.simps [code] random_walk.simps [code]
  retrace.simps [code] wilson_loop.simps [code]

text \<open>
  \<open>gen_wilson\<close> (lines 175-248).  The seed cell reads the first two raw values of the
  random source: the row subscript is evaluated before the column subscript.
\<close>

definition gen_wilson :: "coord \<Rightarrow> (nat \<Rightarrow> nat) \<Rightarrow> (error + lattice_maze) option" where
  "gen_wilson grid_shape rnd =
     (let rows = fst grid_shape; cols = snd grid_shape
      in case np_zeros3 2 rows cols of
           Inl e \<Rightarrow> Some (Inl e)
         | Inr cl0 \<Rightarrow>
       (case np_zeros2 False rows cols of
           Inl e \<Rightarrow> Some (Inl e)
         | Inr connected0 \<Rightarrow>
       (case np_zeros2 (0::int) rows cols of
           Inl e \<Rightarrow> Some (Inl e)
         | Inr direction_matrix0 \<Rightarrow>
       (case randint 0 (rows - 1) (rnd 0) of
           Inl e \<Rightarrow> Some (Inl e)
         | Inr r0 \<Rightarrow>
       (case randint 0 (cols - 1) (rnd 1) of
           Inl e \<Rightarrow> Some (Inl e)
         | Inr c0 \<Rightarrow>
       (case wilson_loop rows cols rnd
               \<lparr>w_connection_list = cl0,
                w_connected = grid_set connected0 (r0, c0) True,
                w_direction_matrix = direction_matrix0,
                w_cells_left = rows * cols - 1,
                w_n_draws = 2\<rparr> of
           None \<Rightarrow> None
         | Some (Inl e) \<Rightarrow> Some (Inl e)
         | Some (Inr s) \<Rightarrow>
             Some (Inr \<lparr>connection_list = w_connection_list s,
                        generation_meta =
                          \<lparr>meta_func_name = ''gen_wilson'',
                           meta_grid_shape = grid_shape,
                           meta_start_coord = None,
                           meta_n_accessible_cells = None,
                           meta_max_tree_depth = None,
                           meta_fully_connected = Some True,
                           meta_visited_cells = None,
                           meta_percolation_p = None\<rparr>\<rparr>)))))))"

section \<open>The graph of a connection list\<close>



text \<open>
  \<open>connection_list[0, r, c]\<close> is the edge from \<open>(r, c)\<close> down to \<open>(r + 1, c)\<close> and
  \<open>connection_list[1, r, c]\<close> the edge from \<open>(r, c)\<close> right to \<open>(r, c + 1)\<close>.
  \<open>open_edge cl a b\<close> holds when \<open>a\<close> owns an open edge whose other end is \<open>b\<close>.
\<close>

definition open_edge :: "conn_list \<Rightarrow> coord \<Rightarrow> coord \<Rightarrow> bool" where
  "open_edge cl a b =
     (0 \<le> fst a \<and> 0 \<le> snd a \<and>
      ((b = (fst a + 1, snd a) \<and> cl_get cl 0 (nat (fst a)) (nat (snd a))) \<or>
       (b = (fst a, snd a + 1) \<and> cl_get cl 1 (nat (fst a)) (nat (snd a)))))"

text \<open>Edges are undirected.\<close>

definition adjacent :: "conn_list \<Rightarrow> coord \<Rightarrow> coord \<Rightarrow> bool" where
  "adjacent cl a b = (open_edge cl a b \<or> open_edge cl b a)"

definition reachable :: "conn_list \<Rightarrow> coord \<Rightarrow> coord \<Rightarrow> bool" where
  "reachable cl a b = ((a, b) \<in> {(x, y). adjacent cl x y}\<^sup>*)"

text \<open>The number of \<open>True\<close> entries of a connection list.\<close>

definition count_open_edges :: "conn_list \<Rightarrow> nat" where
  "count_open_edges cl =
     sum_list (map (\<lambda>plane. sum_list (map (\<lambda>row. length (filter (\<lambda>x. x) row)) plane)) cl)"


text \<open>A coordinate that indexes a cell of the grid.\<close>

definition in_bounds :: "coord \<Rightarrow> coord \<Rightarrow> bool" where
  "in_bounds grid_shape c =
     (0 \<le> fst c \<and> fst c < fst grid_shape \<and> 0 \<le> snd c \<and> snd c < snd grid_shape)"

text \<open>The boundary-wall invariant of a connection list for a grid of the given shape:
  no down edge in the last row, no right edge in the last column.\<close>

definition boundary_walls :: "coord \<Rightarrow> conn_list \<Rightarrow> bool" where
  "boundary_walls grid_shape cl =
     ((\<forall>c. \<not> cl_get cl 0 (nat (fst grid_shape - 1)) c) \<and>
      (\<forall>r. \<not> cl_get cl 1 r (nat (snd grid_shape - 1))))"

section \<open>Percolation\<close>

text \<open>
  \<open>np.random.rand(d, r, c) < p\<close>: \<open>rand i j k\<close> is the float drawn for position
  \<open>[i, j, k]\<close>.  A negative dimension raises \<open>ValueError\<close>.
\<close>

definition np_random_rand_lt ::
  "int \<Rightarrow> int \<Rightarrow> int \<Rightarrow> (nat \<Rightarrow> nat \<Rightarrow> nat \<Rightarrow> real) \<Rightarrow> real \<Rightarrow> error + conn_list" where
  "np_random_rand_lt d r c rand p =
     (if d < 0 \<or> r < 0 \<or> c < 0 then Inl ValueError
      else Inr (map (\<lambda>i. map (\<lambda>j. map (\<lambda>k. rand i j k < p) [0..<nat c]) [0..<nat r])
                  [0..<nat d]))"

text \<open>
  Modelled from the spec: \<open>_fill_edges_with_walls\<close> is imported from
  \<open>maze_dataset.maze.lattice_maze\<close>, which is not among the sources.  The spec (4.1):
  "produce an array of identical shape with all edges pointing outside the grid forced to
  False, all interior values preserved"; "only the last row of axis-0 and last column of
  axis-1 need clearing".
\<close>

definition fill_edges_with_walls :: "conn_list \<Rightarrow> conn_list" where
  "fill_edges_with_walls cl =
     map (\<lambda>(dim, plane).
            if dim = 0 then
              map (\<lambda>(r, row). if Suc r = length plane then map (\<lambda>x. False) row else row)
                (enumerate 0 plane)
            else if dim = 1 then
              map (\<lambda>row. map (\<lambda>(c, x). if Suc c = length row then False else x)
                           (enumerate 0 row)) plane
            else plane)
       (enumerate 0 cl)"

text \<open>
  Modelled from the spec: the method \<open>LatticeMaze.gen_connected_component_from\<close> is not
  among the sources.  The spec (4.2): "given a connection list and a start coordinate,
  return the set of coordinates reachable from the start by traversing only open edges
  (undirected ...)".
\<close>

definition gen_connected_component_from :: "conn_list \<Rightarrow> coord \<Rightarrow> coord set" where
  "gen_connected_component_from cl start = {c. reachable cl start c}"

text \<open>\<open>gen_percolation\<close> (lines 267-290).  The \<open>assert\<close> is the first statement.\<close>

definition gen_percolation ::
  "coord \<Rightarrow> real \<Rightarrow> int \<Rightarrow> coord option \<Rightarrow> nat \<times> nat \<Rightarrow> (nat \<Rightarrow> nat \<Rightarrow> nat \<Rightarrow> real)
     \<Rightarrow> error + lattice_maze" where
  "gen_percolation grid_shape p lattice_dim start_coord u rand =
     (if \<not> (p \<ge> 0 \<and> p \<le> 1) then Inl AssertionError
      else
        (let start = random_start_coord grid_shape start_coord u
         in case np_random_rand_lt lattice_dim (fst grid_shape) (snd grid_shape) rand p of
              Inl e \<Rightarrow> Inl e
            | Inr cl \<Rightarrow>
                (let cl1 = fill_edges_with_walls cl
                 in Inr \<lparr>connection_list = cl1,
                         generation_meta =
                           \<lparr>meta_func_name = ''gen_percolation'',
                            meta_grid_shape = grid_shape,
                            meta_start_coord = Some start,
                            meta_n_accessible_cells = None,
                            meta_max_tree_depth = None,
                            meta_fully_connected = None,
                            meta_visited_cells = Some (gen_connected_component_from cl1 start),
                            meta_percolation_p = Some p\<rparr>\<rparr>)))"

section \<open>Depth-first search followed by percolation\<close>

text \<open>\<open>np.logical_or\<close> of two arrays of the same shape.\<close>

definition np_logical_or :: "conn_list \<Rightarrow> conn_list \<Rightarrow> conn_list" where
  "np_logical_or a b = map2 (map2 (map2 (\<or>))) a b"

text \<open>
  Lines 314-330: the percolation merge applied to the maze that \<open>gen_dfs\<close> returned.  The
  random array has the shape of \<open>maze.connection_list\<close>, which \<open>gen_dfs\<close> allocated with
  shape \<open>(lattice_dim, grid_shape[0], grid_shape[1])\<close>.
\<close>

definition percolate ::
  "coord \<Rightarrow> real \<Rightarrow> int \<Rightarrow> coord \<Rightarrow> (nat \<Rightarrow> nat \<Rightarrow> nat \<Rightarrow> real) \<Rightarrow> lattice_maze
     \<Rightarrow> error + lattice_maze" where
  "percolate grid_shape p lattice_dim start rand maze =
     (case np_random_rand_lt lattice_dim (fst grid_shape) (snd grid_shape) rand p of
        Inl e \<Rightarrow> Inl e
      | Inr connection_list_perc \<Rightarrow>
          (let cl = np_logical_or (connection_list maze)
                      (fill_edges_with_walls connection_list_perc)
           in Inr (maze\<lparr>connection_list := cl,
                         generation_meta :=
                           (generation_meta maze)
                             \<lparr>meta_func_name := ''gen_dfs_percolation'',
                              meta_percolation_p := Some p,
                              meta_visited_cells :=
                                Some (gen_connected_component_from cl start)\<rparr>\<rparr>)))"

text \<open>\<open>gen_dfs_percolation\<close> (lines 302-330).  \<open>gen_dfs\<close> is called with its default
  \<open>do_forks = True\<close> and with the start coordinate already resolved.\<close>

definition gen_dfs_percolation ::
  "coord \<Rightarrow> real \<Rightarrow> int \<Rightarrow> int option \<Rightarrow> int option \<Rightarrow> coord option
     \<Rightarrow> nat \<times> nat \<Rightarrow> (nat \<Rightarrow> nat) \<Rightarrow> (nat \<Rightarrow> nat \<Rightarrow> nat \<Rightarrow> real) \<Rightarrow> error + lattice_maze" where
  "gen_dfs_percolation grid_shape p lattice_dim n_accessible_cells max_tree_depth start_coord
       u rnd rand =
     (let start = random_start_coord grid_shape start_coord u
      in case gen_dfs grid_shape lattice_dim n_accessible_cells max_tree_depth True
                (Some start) u rnd of
           Inl e \<Rightarrow> Inl e
         | Inr maze \<Rightarrow> percolate grid_shape p lattice_dim start rand maze)"

text \<open>
  A start coordinate passed by the caller is acceptable when it is a cell of the grid;
  \<open>None\<close> asks for a random one.
\<close>

definition start_coord_ok :: "coord \<Rightarrow> coord option \<Rightarrow> bool" where
  "start_coord_ok grid_shape start_coord =
     (case start_coord of None \<Rightarrow> True | Some c \<Rightarrow> in_bounds grid_shape c)"

section \<open>Invariants of the depth-first search\<close>

text \<open>
  \<open>carved_between cl cl' a b\<close>: the array \<open>cl'\<close> is \<open>cl\<close> with one more entry set, and that
  entry is the edge between the cells \<open>a\<close> and \<open>b\<close>, stored at the one with the smaller
  coordinate.
\<close>

definition carved_between :: "conn_list \<Rightarrow> conn_list \<Rightarrow> coord \<Rightarrow> coord \<Rightarrow> bool" where
  "carved_between cl cl' a b =
     (\<exists>dd rr cc.
        (\<forall>d' r' c'. cl_get cl' d' r' c' = ((d' = dd \<and> r' = rr \<and> c' = cc) \<or> cl_get cl d' r' c'))
        \<and> ((dd = 0 \<and> {a, b} = {(int rr, int cc), (int rr + 1, int cc)})
           \<or> (dd = 1 \<and> {a, b} = {(int rr, int cc), (int rr, int cc + 1)})))"

text \<open>
  What the main loop of \<open>gen_dfs\<close> maintains when it starts inside the grid: visited cells
  are cells of the grid, the stack holds visited cells, no edge leaves the grid, every visited
  cell is joined to the start by open edges, and open edges join visited cells.
\<close>

definition dfs_inv :: "coord \<Rightarrow> coord \<Rightarrow> dfs_state \<Rightarrow> bool" where
  "dfs_inv gs start s \<longleftrightarrow>
     (\<forall>v. v |\<in>| dfs_visited_cells s \<longrightarrow> in_bounds gs v)
   \<and> (\<forall>v \<in> set (dfs_stack s). v |\<in>| dfs_visited_cells s)
   \<and> boundary_walls gs (dfs_connection_list s)
   \<and> (\<forall>v. v |\<in>| dfs_visited_cells s \<longrightarrow> reachable (dfs_connection_list s) start v)
   \<and> (\<forall>x y. open_edge (dfs_connection_list s) x y \<longrightarrow>
              x |\<in>| dfs_visited_cells s \<and> y |\<in>| dfs_visited_cells s)"



text \<open>The cells of a grid, row by row.\<close>

definition grid_cells :: "coord \<Rightarrow> coord list" where
  "grid_cells grid_shape =
     concat (map (\<lambda>r. map (\<lambda>c. (r, c)) [0..snd grid_shape - 1]) [0..fst grid_shape - 1])"

text \<open>
  The spec's "cells reachable within the depth bound", read on the full lattice: the cells
  of the grid that a lattice path from the start reaches in at most \<open>max_tree_depth / 2\<close>
  steps, the bound that line 106 of \<open>gen_dfs\<close> compares the depth counter with.
\<close>

definition cells_within_depth_bound :: "coord \<Rightarrow> coord \<Rightarrow> int \<Rightarrow> coord list" where
  "cells_within_depth_bound grid_shape start max_tree_depth =
     filter (\<lambda>c. real_of_int (\<bar>fst c - fst start\<bar> + \<bar>snd c - snd start\<bar>)
                   \<le> real_of_int max_tree_depth / 2)
       (grid_cells grid_shape)"

text \<open>The size of the visited set stays between \<open>1\<close> and \<open>n_accessible_cells\<close> (or \<open>1\<close>,
  when that is smaller).\<close>

definition count_inv :: "int \<Rightarrow> dfs_state \<Rightarrow> bool" where
  "count_inv n s \<longleftrightarrow>
     1 \<le> fcard (dfs_visited_cells s) \<and> int (fcard (dfs_visited_cells s)) \<le> max 1 n"

text \<open>
  What the main loop maintains in addition when \<open>do_forks\<close> is \<open>True\<close>: the start is
  visited, the depth counter is the length of the stack, the stack holds no cell twice, and
  a visited cell that has left the stack has no unvisited neighbour in the grid.
\<close>

definition forks_inv :: "coord \<Rightarrow> coord \<Rightarrow> dfs_state \<Rightarrow> bool" where
  "forks_inv gs start s \<longleftrightarrow>
     start |\<in>| dfs_visited_cells s
   \<and> dfs_current_tree_depth s = int (length (dfs_stack s))
   \<and> distinct (dfs_stack s)
   \<and> (\<forall>v d. v |\<in>| dfs_visited_cells s \<and> v \<notin> set (dfs_stack s)
              \<and> d \<in> set NEIGHBORS_MASK
              \<and> in_bounds gs (fst v + fst d, snd v + snd d)
            \<longrightarrow> (fst v + fst d, snd v + snd d) |\<in>| dfs_visited_cells s)"

section \<open>Properties of the random start coordinate\<close>

lemma int_mod_nat_less: "1 \<le> k \<Longrightarrow> int (u mod nat k) < k"
proof -
  assume k: "1 \<le> k"
  then have "u mod nat k < nat k" by simp
  with k show ?thesis by linarith
qed

lemma random_start_coord_range:
  "random_start_coord (rows, cols) None u = (r, c) \<Longrightarrow>
     0 \<le> r \<and> r < max (rows - 1) 1 \<and> 0 \<le> c \<and> c < max (cols - 1) 1"
  using int_mod_nat_less [of "max (rows - 1) 1" "fst u"]
        int_mod_nat_less [of "max (cols - 1) 1" "snd u"]
  by (auto simp: random_start_coord_def)

text \<open>
  Claim C3.  With \<open>start_coord = None\<close> the start coordinate is meant to range over all
  in-bounds cells.  On a \<open>2 \<times> 2\<close> grid the upper bound passed to the exclusive
  \<open>randint\<close> is \<open>max (2 - 1) 1 = 1\<close> on both axes, so whatever the random source
  returns, the drawn coordinate is \<open>(0, 0)\<close>: the in-bounds cell \<open>(1, 1)\<close> (and likewise
  \<open>(0, 1)\<close> and \<open>(1, 0)\<close>) is never chosen.
\<close>

theorem random_start_coord_misses_last_cell:
  "random_start_coord (2, 2) None u = (0, 0) \<and> random_start_coord (2, 2) None u \<noteq> (1, 1)"
  by (simp add: random_start_coord_def)

section \<open>Wilson's algorithm on a concrete run\<close>

lemma isolated_not_reachable:
  "a \<noteq> b \<Longrightarrow> (\<And>z. \<not> adjacent cl a z) \<Longrightarrow> \<not> reachable cl a b"
  unfolding reachable_def by (auto elim: converse_rtranclE)

text \<open>
  Claim C1.  The maze returned by \<open>gen_wilson\<close> should be a spanning tree: all cells
  mutually reachable and \<open>rows \<times> cols - 1\<close> open edges.  On the \<open>1 \<times> 3\<close> grid, with the
  random source below, the seed is \<open>(0, 0)\<close>; the first walk starts at \<open>(0, 2)\<close>, steps left
  to \<open>(0, 1)\<close> and right again to \<open>(0, 2)\<close>, where the loop test of line 201 breaks; the
  retrace then marks \<open>(0, 2)\<close> connected without opening an edge.  The second walk joins
  \<open>(0, 1)\<close> to \<open>(0, 2)\<close>.  The returned maze has one open edge instead of two, the cell
  \<open>(0, 0)\<close> is cut off from \<open>(0, 1)\<close>, and the metadata still says \<open>fully_connected = True\<close>.
\<close>

theorem gen_wilson_disconnected_run:
  "gen_wilson (1, 3) (\<lambda>k. [0, 0, 0, 2, 0, 1, 0, 1, 1] ! k) =
     Some (Inr \<lparr>connection_list = [[[False, False, False]], [[False, True, False]]],
                generation_meta =
                  \<lparr>meta_func_name = ''gen_wilson'', meta_grid_shape = (1, 3),
                   meta_start_coord = None, meta_n_accessible_cells = None,
                   meta_max_tree_depth = None, meta_fully_connected = Some True,
                   meta_visited_cells = None, meta_percolation_p = None\<rparr>\<rparr>)
   \<and> count_open_edges [[[False, False, False]], [[False, True, False]]] = 1
   \<and> \<not> reachable [[[False, False, False]], [[False, True, False]]] (0, 0) (0, 1)"
proof (intro conjI)
  show "gen_wilson (1, 3) (\<lambda>k. [0, 0, 0, 2, 0, 1, 0, 1, 1] ! k) =
     Some (Inr \<lparr>connection_list = [[[False, False, False]], [[False, True, False]]],
                generation_meta =
                  \<lparr>meta_func_name = ''gen_wilson'', meta_grid_shape = (1, 3),
                   meta_start_coord = None, meta_n_accessible_cells = None,
                   meta_max_tree_depth = None, meta_fully_connected = Some True,
                   meta_visited_cells = None, meta_percolation_p = None\<rparr>\<rparr>)"
    by code_simp
  show "count_open_edges [[[False, False, False]], [[False, True, False]]] = 1"
    by (simp add: count_open_edges_def)
  show "\<not> reachable [[[False, False, False]], [[False, True, False]]] (0, 0) (0, 1)"
    by (rule isolated_not_reachable) (auto simp: adjacent_def open_edge_def cl_get_def)
qed

text \<open>
  Claim C2.  Every random walk should end at a connected cell, so that the sentinel \<open>4\<close> is
  written at a connected cell and the connected cells stay one component.  In the first
  outer iteration of the run above (the state is the one \<open>gen_wilson\<close> builds for the
  \<open>1 \<times> 3\<close> grid after seeding \<open>(0, 0)\<close>), the walk ends at \<open>(0, 2)\<close>, which is not
  connected; the sentinel is written there (\<open>direction_matrix = [[0, 1, 4]]\<close>); after the
  iteration \<open>(0, 0)\<close> and \<open>(0, 2)\<close> are both marked connected, no edge is open, and
  \<open>(0, 2)\<close> is not reachable from \<open>(0, 0)\<close>.
\<close>

theorem wilson_walk_stops_at_unconnected_cell:
  "wilson_walk 1 3 (\<lambda>k. [0, 0, 0, 2, 0, 1, 0, 1, 1] ! k)
     \<lparr>w_connection_list = [[[False, False, False]], [[False, False, False]]],
      w_connected = [[True, False, False]],
      w_direction_matrix = [[0, 0, 0]],
      w_cells_left = 2,
      w_n_draws = 2\<rparr> =
     Some (Inr ((0, 2),
                \<lparr>wk_direction_matrix = [[0, 1, 0]], wk_visited = {|(0, 1), (0, 2)|},
                 wk_current = (0, 2), wk_n_draws = 6\<rparr>))
   \<and> \<not> grid_get [[True, False, False]] (0, 2)
   \<and> wilson_iteration 1 3 (\<lambda>k. [0, 0, 0, 2, 0, 1, 0, 1, 1] ! k)
       \<lparr>w_connection_list = [[[False, False, False]], [[False, False, False]]],
        w_connected = [[True, False, False]],
        w_direction_matrix = [[0, 0, 0]],
        w_cells_left = 2,
        w_n_draws = 2\<rparr> =
     Some (Inr \<lparr>w_connection_list = [[[False, False, False]], [[False, False, False]]],
                w_connected = [[True, False, True]],
                w_direction_matrix = [[0, 1, 4]],
                w_cells_left = 1,
                w_n_draws = 6\<rparr>)
   \<and> \<not> reachable [[[False, False, False]], [[False, False, False]]] (0, 0) (0, 2)"
proof (intro conjI)
  show "\<not> reachable [[[False, False, False]], [[False, False, False]]] (0, 0) (0, 2)"
    by (rule isolated_not_reachable) (auto simp: adjacent_def open_edge_def cl_get_def)
qed (code_simp+)

section \<open>Argument checks\<close>

text \<open>
  Claim C4.  Both generators that take a percolation probability should reject \<open>p\<close> outside
  \<open>[0, 1]\<close> before anything is built.  \<open>gen_percolation\<close> does (its first statement is the
  assertion), \<open>gen_dfs_percolation\<close> has no such check: with \<open>p = 2\<close> on the \<open>2 \<times> 2\<close>
  grid it runs the depth-first search, merges an all-open percolation sample and returns a
  maze whose metadata records \<open>percolation_p = 2\<close>.
\<close>

theorem gen_dfs_percolation_accepts_bad_p:
  "gen_percolation (2, 2) 2 2 (Some (0, 0)) (0, 0) (\<lambda>i j k. 0) = Inl AssertionError
   \<and> (\<exists>m. gen_dfs_percolation (2, 2) 2 2 None None (Some (0, 0)) (0, 0) (\<lambda>k. 0) (\<lambda>i j k. 0)
             = Inr m
          \<and> connection_list m = [[[True, True], [False, False]], [[True, False], [True, False]]]
          \<and> meta_percolation_p (generation_meta m) = Some 2)"
proof -
  have dfs: "gen_dfs (2, 2) 2 None None True (Some (0, 0)) (0, 0) (\<lambda>k. 0) =
    Inr \<lparr>connection_list = [[[False, True], [False, False]], [[True, False], [True, False]]],
          generation_meta =
            \<lparr>meta_func_name = ''gen_dfs'', meta_grid_shape = (2, 2),
             meta_start_coord = Some (0, 0), meta_n_accessible_cells = Some 4,
             meta_max_tree_depth = Some 8, meta_fully_connected = Some True,
             meta_visited_cells = Some {(0, 0), (0, 1), (1, 1), (1, 0)},
             meta_percolation_p = None\<rparr>\<rparr>"
    by code_simp
  have perc: "np_random_rand_lt 2 2 2 (\<lambda>i j k. 0) 2 =
      Inr [[[True, True], [True, True]], [[True, True], [True, True]]]"
    by code_simp
  have fill: "fill_edges_with_walls [[[True, True], [True, True]], [[True, True], [True, True]]]
      = [[[True, True], [False, False]], [[True, False], [True, False]]]"
    by code_simp
  show ?thesis
    by (simp add: gen_percolation_def gen_dfs_percolation_def random_start_coord_def dfs
          percolate_def perc fill np_logical_or_def Let_def)
qed

text \<open>
  Claim C5, as stated: a grid shape with a non-positive dimension makes every generator
  raise before any array is allocated, and no maze is returned.  \<open>gen_dfs\<close> on the shape
  \<open>(0, 3)\<close> raises nothing: it allocates an empty connection list, skips the loop and
  returns a maze.
\<close>

theorem gen_dfs_zero_rows_returns_maze:
  "gen_dfs (0, 3) 2 None None True None (0, 0) (\<lambda>k. 0) =
     Inr \<lparr>connection_list = [[], []],
          generation_meta =
            \<lparr>meta_func_name = ''gen_dfs'', meta_grid_shape = (0, 3),
             meta_start_coord = Some (0, 0), meta_n_accessible_cells = Some 0,
             meta_max_tree_depth = Some 0, meta_fully_connected = Some False,
             meta_visited_cells = Some {(0, 0)}, meta_percolation_p = None\<rparr>\<rparr>"
  by code_simp

lemma gen_wilson_malformed:
  assumes "fst gs \<le> 0 \<or> snd gs \<le> 0"
  shows "gen_wilson gs rnd = Some (Inl ValueError)"
  using assms
  by (auto simp: gen_wilson_def np_zeros3_def np_zeros2_def randint_def Let_def
           split: sum.splits)

lemma gen_dfs_negative:
  assumes "fst gs < 0 \<or> snd gs < 0"
  shows "gen_dfs gs ld n m forks sc u rnd = Inl ValueError"
  using assms by (auto simp: gen_dfs_def np_zeros3_def Let_def)

lemma gen_percolation_negative:
  assumes "fst gs < 0 \<or> snd gs < 0"
  shows "isl (gen_percolation gs p ld sc u rand)"
  using assms by (auto simp: gen_percolation_def np_random_rand_lt_def Let_def)

text \<open>
  Claim C5, amended.  No generator validates \<open>grid_shape\<close>; what stops a malformed shape is
  the first library call that cannot digest it.  A negative dimension makes \<open>gen_dfs\<close> and
  \<open>gen_dfs_percolation\<close> raise \<open>ValueError\<close> at the allocation of the connection list and
  makes \<open>gen_percolation\<close> raise (at its assertion on \<open>p\<close> or at the allocation of the
  random array); \<open>gen_wilson\<close> raises \<open>ValueError\<close> for every shape with a non-positive
  dimension (at the allocation, or at the empty range of \<open>random.randint\<close>).  In all these
  cases no maze is returned.
\<close>

theorem malformed_grid_shape_errors:
  "(fst gs < 0 \<or> snd gs < 0 \<longrightarrow>
      gen_dfs gs ld n m forks sc u rnd = Inl ValueError
      \<and> isl (gen_percolation gs p ld sc u rand)
      \<and> gen_dfs_percolation gs p ld n m sc u rnd rand = Inl ValueError)
   \<and> (fst gs \<le> 0 \<or> snd gs \<le> 0 \<longrightarrow> gen_wilson gs rnd = Some (Inl ValueError))"
  using gen_wilson_malformed [of gs rnd] gen_percolation_negative [of gs p ld sc u rand]
  by (auto simp: gen_dfs_percolation_def gen_dfs_negative Let_def)

theorem malformed_grid_shape_errors_witness:
  "(fst (- 1 :: int, 3 :: int) < 0 \<or> snd (- 1 :: int, 3 :: int) < 0)
   \<and> gen_dfs (- 1, 3) 2 None None True None (0, 0) (\<lambda>k. 0) = Inl ValueError
   \<and> isl (gen_percolation (- 1, 3) (1 / 2) 2 None (0, 0) (\<lambda>i j k. 0))
   \<and> gen_dfs_percolation (- 1, 3) (1 / 2) 2 None None None (0, 0) (\<lambda>k. 0) (\<lambda>i j k. 0)
       = Inl ValueError
   \<and> (fst (- 1 :: int, 3 :: int) \<le> 0 \<or> snd (- 1 :: int, 3 :: int) \<le> 0)
   \<and> gen_wilson (- 1, 3) (\<lambda>k. 0) = Some (Inl ValueError)"
  using malformed_grid_shape_errors [of "(- 1, 3)" 2 None None True None "(0, 0)" "\<lambda>k. 0"
          "1 / 2" "\<lambda>i j k. 0"]
  by simp

section \<open>The depth-first search maintains its invariants\<close>

lemma dfs_loop_invariant:
  assumes "dfs_loop gs n mtd forks rnd s = Inr t"
    and "P s"
    and step: "\<And>s s'. P s \<Longrightarrow> dfs_cond n s \<Longrightarrow> dfs_step gs mtd forks rnd s = Inr s' \<Longrightarrow> P s'"
  shows "P t \<and> \<not> dfs_cond n t"
  using assms
proof (induction gs n mtd forks rnd s rule: dfs_loop.induct)
  case (1 gs n mtd forks rnd s)
  show ?case
  proof (cases "dfs_cond n s")
    case False
    with "1.prems" show ?thesis by (simp add: dfs_loop.simps)
  next
    case True
    with "1.prems"(1) obtain s' where s': "dfs_step gs mtd forks rnd s = Inr s'"
      and loop: "dfs_loop gs n mtd forks rnd s' = Inr t"
      by (subst (asm) dfs_loop.simps) (auto split: sum.splits)
    from "1.prems"(3) [OF "1.prems"(2) True s'] have "P s'" .
    with "1.IH" [OF True s' loop] "1.prems"(3) show ?thesis by blast
  qed
qed

lemma cl_set_true_get:
  assumes "cl_set_true cl (int d) (int r) (int c) = Inr cl'"
  shows "cl_get cl' d' r' c' = ((d' = d \<and> r' = r \<and> c' = c) \<or> cl_get cl d' r' c')"
  using assms
  by (auto simp: cl_set_true_def np_index_def cl_get_def nth_list_update
           split: if_splits option.splits)

lemma und_iff:
  "(nb, d) \<in> set (unvisited_neighbors_deltas gs vis cur) \<longleftrightarrow>
     d \<in> set NEIGHBORS_MASK \<and> nb = (fst cur + fst d, snd cur + snd d)
     \<and> nb |\<notin>| vis \<and> in_bounds gs nb"
  by (auto simp: unvisited_neighbors_deltas_def in_bounds_def)

lemma cl_set_true_get_int:
  assumes "cl_set_true cl d r c = Inr cl'" "0 \<le> d" "0 \<le> r" "0 \<le> c"
  shows "cl_get cl' d' r' c' = ((d' = nat d \<and> r' = nat r \<and> c' = nat c) \<or> cl_get cl d' r' c')"
  using cl_set_true_get [of cl "nat d" "nat r" "nat c" cl' d' r' c'] assms by simp

lemma carve_edge:
  assumes und: "(nb, d) \<in> set (unvisited_neighbors_deltas gs vis cur)"
    and cur: "in_bounds gs cur"
    and set: "cl_set_true cl (argmax_abs d)
                (fst (if fst d + snd d > 0 then cur else nb))
                (snd (if fst d + snd d > 0 then cur else nb)) = Inr cl'"
  shows "carved_between cl cl' cur nb"
proof -
  from und have d: "d \<in> set NEIGHBORS_MASK" and nb: "nb = (fst cur + fst d, snd cur + snd d)"
    and nbb: "in_bounds gs nb"
    by (auto simp: und_iff)
  from d consider "d = (0, 1)" | "d = (0, - 1)" | "d = (1, 0)" | "d = (- 1, 0)"
    by (auto simp: NEIGHBORS_MASK_def)
  then show ?thesis
  proof cases
    case 1
    with set have s: "cl_set_true cl 1 (fst cur) (snd cur) = Inr cl'"
      by (simp add: argmax_abs_def)
    have "\<forall>d' r' c'. cl_get cl' d' r' c' =
        ((d' = 1 \<and> r' = nat (fst cur) \<and> c' = nat (snd cur)) \<or> cl_get cl d' r' c')"
      using cl_set_true_get_int [OF s] cur by (simp add: in_bounds_def)
    moreover have "{cur, nb} = {(int (nat (fst cur)), int (nat (snd cur))),
                               (int (nat (fst cur)), int (nat (snd cur)) + 1)}"
      using cur nb 1 by (cases cur) (auto simp: in_bounds_def)
    ultimately show ?thesis unfolding carved_between_def by blast
  next
    case 2
    with set have s: "cl_set_true cl 1 (fst nb) (snd nb) = Inr cl'"
      by (simp add: argmax_abs_def)
    have "\<forall>d' r' c'. cl_get cl' d' r' c' =
        ((d' = 1 \<and> r' = nat (fst nb) \<and> c' = nat (snd nb)) \<or> cl_get cl d' r' c')"
      using cl_set_true_get_int [OF s] nbb by (simp add: in_bounds_def)
    moreover have "{cur, nb} = {(int (nat (fst nb)), int (nat (snd nb))),
                               (int (nat (fst nb)), int (nat (snd nb)) + 1)}"
      using nbb nb 2 by (cases cur) (auto simp: in_bounds_def)
    ultimately show ?thesis unfolding carved_between_def by blast
  next
    case 3
    with set have s: "cl_set_true cl 0 (fst cur) (snd cur) = Inr cl'"
      by (simp add: argmax_abs_def)
    have "\<forall>d' r' c'. cl_get cl' d' r' c' =
        ((d' = 0 \<and> r' = nat (fst cur) \<and> c' = nat (snd cur)) \<or> cl_get cl d' r' c')"
      using cl_set_true_get_int [OF s] cur by (simp add: in_bounds_def)
    moreover have "{cur, nb} = {(int (nat (fst cur)), int (nat (snd cur))),
                               (int (nat (fst cur)) + 1, int (nat (snd cur)))}"
      using cur nb 3 by (cases cur) (auto simp: in_bounds_def)
    ultimately show ?thesis unfolding carved_between_def by blast
  next
    case 4
    with set have s: "cl_set_true cl 0 (fst nb) (snd nb) = Inr cl'"
      by (simp add: argmax_abs_def)
    have "\<forall>d' r' c'. cl_get cl' d' r' c' =
        ((d' = 0 \<and> r' = nat (fst nb) \<and> c' = nat (snd nb)) \<or> cl_get cl d' r' c')"
      using cl_set_true_get_int [OF s] nbb by (simp add: in_bounds_def)
    moreover have "{cur, nb} = {(int (nat (fst nb)), int (nat (snd nb))),
                               (int (nat (fst nb)) + 1, int (nat (snd nb)))}"
      using nbb nb 4 by (cases cur) (auto simp: in_bounds_def)
    ultimately show ?thesis unfolding carved_between_def by blast
  qed
qed

lemma carved_between_mono:
  "carved_between cl cl' a b \<Longrightarrow> cl_get cl d r c \<Longrightarrow> cl_get cl' d r c"
  unfolding carved_between_def by blast

lemma carved_between_open_edge_mono:
  "carved_between cl cl' a b \<Longrightarrow> open_edge cl x y \<Longrightarrow> open_edge cl' x y"
  unfolding open_edge_def using carved_between_mono by blast

lemma carved_between_adjacent_mono:
  "carved_between cl cl' a b \<Longrightarrow> adjacent cl x y \<Longrightarrow> adjacent cl' x y"
  unfolding adjacent_def using carved_between_open_edge_mono by blast

lemma reachable_mono:
  assumes "\<And>x y. adjacent cl x y \<Longrightarrow> adjacent cl' x y" and "reachable cl a b"
  shows "reachable cl' a b"
proof -
  have "{(x, y). adjacent cl x y} \<subseteq> {(x, y). adjacent cl' x y}"
    using assms(1) by auto
  from rtrancl_mono [OF this] assms(2) show ?thesis
    unfolding reachable_def by blast
qed

lemma carved_between_adjacent:
  assumes "carved_between cl cl' a b"
  shows "adjacent cl' a b"
proof -
  from assms obtain dd rr cc where
    get: "\<And>d' r' c'. cl_get cl' d' r' c' = ((d' = dd \<and> r' = rr \<and> c' = cc) \<or> cl_get cl d' r' c')"
    and ab: "(dd = 0 \<and> {a, b} = {(int rr, int cc), (int rr + 1, int cc)})
           \<or> (dd = 1 \<and> {a, b} = {(int rr, int cc), (int rr, int cc + 1)})"
    unfolding carved_between_def by blast
  have new: "cl_get cl' dd rr cc" using get [of dd rr cc] by simp
  from ab show ?thesis
  proof
    assume h: "dd = 0 \<and> {a, b} = {(int rr, int cc), (int rr + 1, int cc)}"
    with new have "open_edge cl' (int rr, int cc) (int rr + 1, int cc)"
      by (simp add: open_edge_def)
    moreover from h have "(a = (int rr, int cc) \<and> b = (int rr + 1, int cc))
        \<or> (b = (int rr, int cc) \<and> a = (int rr + 1, int cc))"
      by (auto simp: doubleton_eq_iff)
    ultimately show ?thesis unfolding adjacent_def by blast
  next
    assume h: "dd = 1 \<and> {a, b} = {(int rr, int cc), (int rr, int cc + 1)}"
    with new have "open_edge cl' (int rr, int cc) (int rr, int cc + 1)"
      by (simp add: open_edge_def)
    moreover from h have "(a = (int rr, int cc) \<and> b = (int rr, int cc + 1))
        \<or> (b = (int rr, int cc) \<and> a = (int rr, int cc + 1))"
      by (auto simp: doubleton_eq_iff)
    ultimately show ?thesis unfolding adjacent_def by blast
  qed
qed

lemma carved_between_open_edge_new:
  assumes cb: "carved_between cl cl' a b" and e: "open_edge cl' x y"
  shows "open_edge cl x y \<or> (x = a \<and> y = b) \<or> (x = b \<and> y = a)"
proof -
  from cb obtain dd rr cc where
    get: "\<And>d' r' c'. cl_get cl' d' r' c' = ((d' = dd \<and> r' = rr \<and> c' = cc) \<or> cl_get cl d' r' c')"
    and ab: "(dd = 0 \<and> {a, b} = {(int rr, int cc), (int rr + 1, int cc)})
           \<or> (dd = 1 \<and> {a, b} = {(int rr, int cc), (int rr, int cc + 1)})"
    unfolding carved_between_def by blast
  from e have nn: "0 \<le> fst x" "0 \<le> snd x" by (simp_all add: open_edge_def)
  then have x: "x = (int (nat (fst x)), int (nat (snd x)))" by simp
  from e consider
      (down) "y = (fst x + 1, snd x)" "cl_get cl' 0 (nat (fst x)) (nat (snd x))"
    | (right) "y = (fst x, snd x + 1)" "cl_get cl' 1 (nat (fst x)) (nat (snd x))"
    unfolding open_edge_def by blast
  then show ?thesis
  proof cases
    case down
    from down(2) get [of 0 "nat (fst x)" "nat (snd x)"]
    consider "cl_get cl 0 (nat (fst x)) (nat (snd x))"
      | "dd = 0" "rr = nat (fst x)" "cc = nat (snd x)" by auto
    then show ?thesis
    proof cases
      case 1
      with down(1) nn show ?thesis by (simp add: open_edge_def)
    next
      case 2
      with ab have "{a, b} = {(int rr, int cc), (int rr + 1, int cc)}" by simp
      moreover from 2 x down(1) nn have "x = (int rr, int cc)" "y = (int rr + 1, int cc)"
        by simp_all
      ultimately have "{a, b} = {x, y}" by simp
      then show ?thesis by (auto simp: doubleton_eq_iff)
    qed
  next
    case right
    from right(2) get [of 1 "nat (fst x)" "nat (snd x)"]
    consider "cl_get cl 1 (nat (fst x)) (nat (snd x))"
      | "dd = 1" "rr = nat (fst x)" "cc = nat (snd x)" by auto
    then show ?thesis
    proof cases
      case 1
      with right(1) nn show ?thesis by (simp add: open_edge_def)
    next
      case 2
      with ab have "{a, b} = {(int rr, int cc), (int rr, int cc + 1)}" by simp
      moreover from 2 x right(1) nn have "x = (int rr, int cc)" "y = (int rr, int cc + 1)"
        by simp_all
      ultimately have "{a, b} = {x, y}" by simp
      then show ?thesis by (auto simp: doubleton_eq_iff)
    qed
  qed
qed

lemma carved_between_boundary_walls:
  assumes "carved_between cl cl' a b" "in_bounds gs a" "in_bounds gs b" "boundary_walls gs cl"
  shows "boundary_walls gs cl'"
  using assms unfolding carved_between_def boundary_walls_def in_bounds_def
  by (auto simp: doubleton_eq_iff)


lemma dfs_step_cases:
  assumes "dfs_step gs mtd forks rnd s = Inr s'"
  obtains (carve) nb d where
      "(nb, d) \<in> set (unvisited_neighbors_deltas gs (dfs_visited_cells s) (last (dfs_stack s)))"
      "real_of_int (dfs_current_tree_depth s) \<le> real_of_int mtd / 2"
      "cl_set_true (dfs_connection_list s) (argmax_abs d)
         (fst (if fst d + snd d > 0 then last (dfs_stack s) else nb))
         (snd (if fst d + snd d > 0 then last (dfs_stack s) else nb))
       = Inr (dfs_connection_list s')"
      "dfs_visited_cells s' = finsert nb (dfs_visited_cells s)"
      "dfs_stack s' = (if forks then butlast (dfs_stack s) @ [last (dfs_stack s)]
                       else butlast (dfs_stack s)) @ [nb]"
      "dfs_current_tree_depth s' = dfs_current_tree_depth s + 1"
  | (backtrack)
      "unvisited_neighbors_deltas gs (dfs_visited_cells s) (last (dfs_stack s)) = []
       \<or> \<not> real_of_int (dfs_current_tree_depth s) \<le> real_of_int mtd / 2"
      "dfs_connection_list s' = dfs_connection_list s"
      "dfs_visited_cells s' = dfs_visited_cells s"
      "dfs_stack s' = butlast (dfs_stack s)"
      "dfs_current_tree_depth s' = dfs_current_tree_depth s - 1"
proof (cases "unvisited_neighbors_deltas gs (dfs_visited_cells s) (last (dfs_stack s)) \<noteq> []
              \<and> real_of_int (dfs_current_tree_depth s) \<le> real_of_int mtd / 2")
  case True
  let ?und = "unvisited_neighbors_deltas gs (dfs_visited_cells s) (last (dfs_stack s))"
  let ?ch = "random_choice ?und (rnd (dfs_n_choices s))"
  from True have "?ch \<in> set ?und" by (simp add: random_choice_in_set)
  then have mem: "(fst ?ch, snd ?ch) \<in> set ?und" by simp
  show ?thesis
  proof (rule carve [OF mem])
    show "real_of_int (dfs_current_tree_depth s) \<le> real_of_int mtd / 2" using True by simp
  qed (use assms True in \<open>auto simp: dfs_step_def Let_def split: sum.splits if_splits\<close>)
next
  case False
  show ?thesis
  proof (rule backtrack)
    show "unvisited_neighbors_deltas gs (dfs_visited_cells s) (last (dfs_stack s)) = []
       \<or> \<not> real_of_int (dfs_current_tree_depth s) \<le> real_of_int mtd / 2"
      using False by blast
  qed (use assms False in \<open>auto simp: dfs_step_def Let_def\<close>)
qed

lemma reachable_refl: "reachable cl a a"
  by (simp add: reachable_def)

lemma reachable_step: "reachable cl a b \<Longrightarrow> adjacent cl b c \<Longrightarrow> reachable cl a c"
  unfolding reachable_def by (auto intro: rtrancl_into_rtrancl)

lemma dfs_step_carved:
  assumes inv: "dfs_inv gs start s" and ne: "dfs_stack s \<noteq> []"
    and und: "(nb, d) \<in> set (unvisited_neighbors_deltas gs (dfs_visited_cells s) (last (dfs_stack s)))"
    and set: "cl_set_true (dfs_connection_list s) (argmax_abs d)
         (fst (if fst d + snd d > 0 then last (dfs_stack s) else nb))
         (snd (if fst d + snd d > 0 then last (dfs_stack s) else nb))
       = Inr cl'"
  shows "carved_between (dfs_connection_list s) cl' (last (dfs_stack s)) nb"
proof -
  from ne have "last (dfs_stack s) \<in> set (dfs_stack s)" by simp
  with inv have "in_bounds gs (last (dfs_stack s))" unfolding dfs_inv_def by blast
  from carve_edge [OF und this set] show ?thesis .
qed

lemma dfs_inv_step:
  assumes inv: "dfs_inv gs start s" and cond: "dfs_cond n s"
    and step: "dfs_step gs mtd forks rnd s = Inr s'"
  shows "dfs_inv gs start s'"
  using step
proof (cases rule: dfs_step_cases)
  case (carve nb d)
  let ?cur = "last (dfs_stack s)"
  from cond have ne: "dfs_stack s \<noteq> []" by (simp add: dfs_cond_def)
  then have cur_in: "?cur \<in> set (dfs_stack s)" by simp
  with inv have cur_vis: "?cur |\<in>| dfs_visited_cells s" and cur_b: "in_bounds gs ?cur"
    unfolding dfs_inv_def by blast+
  from carve(1) have nb_b: "in_bounds gs nb" by (auto simp: und_iff)
  have cb: "carved_between (dfs_connection_list s) (dfs_connection_list s') ?cur nb"
    by (rule dfs_step_carved [OF inv ne carve(1) carve(3)])
  have 1: "\<forall>v. v |\<in>| dfs_visited_cells s' \<longrightarrow> in_bounds gs v"
    using inv nb_b carve(4) unfolding dfs_inv_def by auto
  have "set (dfs_stack s') \<subseteq> insert nb (set (dfs_stack s))"
    using carve(5) ne by (auto dest: in_set_butlastD)
  then have 2: "\<forall>v \<in> set (dfs_stack s'). v |\<in>| dfs_visited_cells s'"
    using inv carve(4) unfolding dfs_inv_def by auto
  have 3: "boundary_walls gs (dfs_connection_list s')"
    using carved_between_boundary_walls [OF cb cur_b nb_b] inv unfolding dfs_inv_def by blast
  have mono: "\<And>v. reachable (dfs_connection_list s) start v
                 \<Longrightarrow> reachable (dfs_connection_list s') start v"
    using reachable_mono [OF carved_between_adjacent_mono [OF cb]] by blast
  have "reachable (dfs_connection_list s') start ?cur"
    using inv cur_vis mono unfolding dfs_inv_def by blast
  then have "reachable (dfs_connection_list s') start nb"
    using reachable_step carved_between_adjacent [OF cb] by blast
  then have 4: "\<forall>v. v |\<in>| dfs_visited_cells s' \<longrightarrow> reachable (dfs_connection_list s') start v"
    using inv mono carve(4) unfolding dfs_inv_def by auto
  have 5: "\<forall>x y. open_edge (dfs_connection_list s') x y \<longrightarrow>
              x |\<in>| dfs_visited_cells s' \<and> y |\<in>| dfs_visited_cells s'"
  proof (intro allI impI)
    fix x y assume e: "open_edge (dfs_connection_list s') x y"
    have old: "open_edge (dfs_connection_list s) x y \<Longrightarrow>
                 x |\<in>| dfs_visited_cells s \<and> y |\<in>| dfs_visited_cells s"
      using inv unfolding dfs_inv_def by blast
    from carved_between_open_edge_new [OF cb e] old cur_vis
    show "x |\<in>| dfs_visited_cells s' \<and> y |\<in>| dfs_visited_cells s'"
      unfolding carve(4) by blast
  qed
  from 1 2 3 4 5 show ?thesis unfolding dfs_inv_def by blast
next
  case backtrack
  have "set (dfs_stack s') \<subseteq> set (dfs_stack s)"
    using backtrack(4) by (auto dest: in_set_butlastD)
  with inv backtrack show ?thesis unfolding dfs_inv_def by auto
qed

section \<open>What the depth-first search returns\<close>

lemma np_zeros3_get: "np_zeros3 d r c = Inr cl \<Longrightarrow> \<not> cl_get cl d' r' c'"
  by (auto simp: np_zeros3_def cl_get_def split: if_splits)

lemma no_edges_boundary_walls: "(\<And>d r c. \<not> cl_get cl d r c) \<Longrightarrow> boundary_walls gs cl"
  by (simp add: boundary_walls_def)

lemma no_edges_open_edge: "(\<And>d r c. \<not> cl_get cl d r c) \<Longrightarrow> \<not> open_edge cl x y"
  by (simp add: open_edge_def)

lemma dfs_inv_init:
  assumes "in_bounds gs start" and "np_zeros3 ld r c = Inr cl0"
  shows "dfs_inv gs start \<lparr>dfs_connection_list = cl0, dfs_visited_cells = {|start|},
           dfs_stack = [start], dfs_current_tree_depth = 1, dfs_n_choices = 0\<rparr>"
  using assms np_zeros3_get [OF assms(2)]
  by (simp add: dfs_inv_def reachable_refl no_edges_boundary_walls no_edges_open_edge)

lemma random_start_in_bounds:
  assumes "0 < fst gs" "0 < snd gs" and "\<And>c. sc = Some c \<Longrightarrow> in_bounds gs c"
  shows "in_bounds gs (random_start_coord gs sc u)"
proof (cases sc)
  case None
  obtain r c where rc: "random_start_coord (fst gs, snd gs) None u = (r, c)"
    by (cases "random_start_coord (fst gs, snd gs) None u")
  from random_start_coord_range [OF rc] assms(1,2) None rc show ?thesis
    by (auto simp: in_bounds_def)
next
  case (Some c)
  with assms(3) show ?thesis by (simp add: random_start_coord_def)
qed

lemma gen_dfs_InrE:
  assumes "gen_dfs gs ld n m forks sc u rnd = Inr maze"
  obtains cl0 s where
    "np_zeros3 ld (fst gs) (snd gs) = Inr cl0"
    "dfs_loop gs (case n of None \<Rightarrow> fst gs * snd gs | Some k \<Rightarrow> k)
       (case m of None \<Rightarrow> 2 * (fst gs * snd gs) | Some k \<Rightarrow> k) forks rnd
       \<lparr>dfs_connection_list = cl0, dfs_visited_cells = {|random_start_coord gs sc u|},
           dfs_stack = [random_start_coord gs sc u], dfs_current_tree_depth = 1,
           dfs_n_choices = 0\<rparr> = Inr s"
    "connection_list maze = dfs_connection_list s"
    "meta_visited_cells (generation_meta maze) = Some (fset (dfs_visited_cells s))"
    "meta_fully_connected (generation_meta maze) =
       Some (int (fcard (dfs_visited_cells s)) = (case n of None \<Rightarrow> fst gs * snd gs | Some k \<Rightarrow> k))"
    "meta_n_accessible_cells (generation_meta maze) =
       Some (case n of None \<Rightarrow> fst gs * snd gs | Some k \<Rightarrow> k)"
  using assms unfolding gen_dfs_def Let_def
  by (auto split: sum.splits)



section \<open>Array shapes, wall filling and merging\<close>






lemma fill_edges_with_walls_length [simp]:
  "length (fill_edges_with_walls cl) = length cl"
  by (simp add: fill_edges_with_walls_def)





section \<open>Wilson's algorithm keeps the boundary walls\<close>















section \<open>The boundary-wall invariant\<close>

lemma start_coord_okD: "start_coord_ok gs sc \<Longrightarrow> sc = Some c \<Longrightarrow> in_bounds gs c"
  by (simp add: start_coord_ok_def)





lemma random_start_coord_ok:
  assumes "start_coord_ok gs sc" and "0 < fst gs \<and> 0 < snd gs"
  shows "in_bounds gs (random_start_coord gs sc u)"
  by (rule random_start_in_bounds) (use assms in \<open>auto dest: start_coord_okD\<close>)





lemma random_start_coord_Some [simp]: "random_start_coord gs (Some c) u = c"
  by (simp add: random_start_coord_def)





section \<open>Termination of the depth-first search\<close>









section \<open>Percolation on top of the depth-first search\<close>









section \<open>The corridor mode of the depth-first search\<close>

















section \<open>The size of the visited set\<close>

lemma count_inv_step:
  assumes "count_inv n s" and cond: "dfs_cond n s"
    and step: "dfs_step gs mtd forks rnd s = Inr s'"
  shows "count_inv n s'"
proof -
  from cond have ne: "dfs_stack s \<noteq> []" and lt: "int (fcard (dfs_visited_cells s)) < n"
    by (simp_all add: dfs_cond_def)
  from assms(1) have a: "1 \<le> fcard (dfs_visited_cells s)"
    "int (fcard (dfs_visited_cells s)) \<le> max 1 n" by (simp_all add: count_inv_def)
  from dfs_step_progress [OF step ne] show ?thesis
  proof
    assume e: "fcard (dfs_visited_cells s') = Suc (fcard (dfs_visited_cells s))"
    with lt have "int (fcard (dfs_visited_cells s')) \<le> n" by simp
    then have "int (fcard (dfs_visited_cells s')) \<le> max 1 n" by linarith
    with e show ?thesis by (simp add: count_inv_def)
  next
    assume "dfs_visited_cells s' = dfs_visited_cells s
            \<and> length (dfs_stack s') < length (dfs_stack s)"
    with a show ?thesis by (simp add: count_inv_def)
  qed
qed

lemma gen_dfs_count:
  assumes gen: "gen_dfs gs ld n m forks sc u rnd = Inr maze"
  obtains v where "meta_visited_cells (generation_meta maze) = Some v" "finite v"
    "1 \<le> card v"
    "int (card v) \<le> max 1 (case n of None \<Rightarrow> fst gs * snd gs | Some k \<Rightarrow> k)"
    "meta_fully_connected (generation_meta maze) =
       Some (int (card v) = (case n of None \<Rightarrow> fst gs * snd gs | Some k \<Rightarrow> k))"
proof -
  let ?start = "random_start_coord gs sc u"
  let ?n = "case n of None \<Rightarrow> fst gs * snd gs | Some k \<Rightarrow> k"
  from gen obtain cl0 s where
    loop: "dfs_loop gs ?n
       (case m of None \<Rightarrow> 2 * (fst gs * snd gs) | Some k \<Rightarrow> k) forks rnd
       \<lparr>dfs_connection_list = cl0, dfs_visited_cells = {|?start|},
           dfs_stack = [?start], dfs_current_tree_depth = 1,
           dfs_n_choices = 0\<rparr> = Inr s"
    and v: "meta_visited_cells (generation_meta maze) = Some (fset (dfs_visited_cells s))"
    and f: "meta_fully_connected (generation_meta maze) =
       Some (int (fcard (dfs_visited_cells s)) = ?n)"
    by (rule gen_dfs_InrE)
  have init: "count_inv ?n \<lparr>dfs_connection_list = cl0, dfs_visited_cells = {|?start|},
           dfs_stack = [?start], dfs_current_tree_depth = 1, dfs_n_choices = 0\<rparr>"
    by (simp add: count_inv_def fcard.rep_eq)
  have "count_inv ?n s"
    using dfs_loop_invariant [OF loop, where P = "count_inv ?n"] init count_inv_step
    by blast
  then have "1 \<le> card (fset (dfs_visited_cells s))"
    "int (card (fset (dfs_visited_cells s))) \<le> max 1 ?n"
    by (simp_all add: count_inv_def fcard.rep_eq)
  moreover from f have "meta_fully_connected (generation_meta maze) =
       Some (int (card (fset (dfs_visited_cells s))) = ?n)"
    by (simp add: fcard.rep_eq)
  ultimately show ?thesis using that [OF v] by simp
qed

lemma in_bounds_set: "{c. in_bounds gs c} = {0..<fst gs} \<times> {0..<snd gs}"
  by (auto simp: in_bounds_def)

lemma card_in_bounds:
  assumes "0 \<le> fst gs" "0 \<le> snd gs"
  shows "card {c. in_bounds gs c} = nat (fst gs * snd gs)"
  using assms by (simp add: in_bounds_set card_cartesian_product nat_mult_distrib)

lemma finite_in_bounds: "finite {c. in_bounds gs c}"
  by (simp add: in_bounds_set)

lemma line_closed:
  fixes P :: "int \<Rightarrow> bool"
  assumes a: "P a" "0 \<le> a" "a < n"
    and up: "\<And>k. P k \<Longrightarrow> 0 \<le> k \<Longrightarrow> k + 1 < n \<Longrightarrow> P (k + 1)"
    and down: "\<And>k. P k \<Longrightarrow> 0 \<le> k - 1 \<Longrightarrow> k < n \<Longrightarrow> P (k - 1)"
    and k: "0 \<le> k" "k < n"
  shows "P k"
proof (cases "a \<le> k")
  case True
  then have "k < n \<longrightarrow> P k"
  proof (induction k rule: int_ge_induct)
    case base
    from a show ?case by simp
  next
    case (step i)
    show ?case
    proof
      assume "i + 1 < n"
      with step have "P i" by simp
      from up [OF this] step(1) a(2) \<open>i + 1 < n\<close> show "P (i + 1)" by simp
    qed
  qed
  with k show ?thesis by simp
next
  case False
  then have "k \<le> a" by simp
  then have "0 \<le> k \<longrightarrow> P k"
  proof (induction k rule: int_le_induct)
    case base
    from a show ?case by simp
  next
    case (step i)
    show ?case
    proof
      assume "0 \<le> i - 1"
      with step have "P i" by simp
      from down [OF this] step(1) a(3) \<open>0 \<le> i - 1\<close> show "P (i - 1)" by simp
    qed
  qed
  with k show ?thesis by simp
qed

lemma grid_closed:
  assumes start: "start \<in> S" "in_bounds gs start"
    and closed: "\<And>v d. v \<in> S \<Longrightarrow> d \<in> set NEIGHBORS_MASK \<Longrightarrow>
                   in_bounds gs (fst v + fst d, snd v + snd d) \<Longrightarrow>
                   (fst v + fst d, snd v + snd d) \<in> S"
    and c: "in_bounds gs c"
  shows "c \<in> S"
proof -
  from start(2) have sb: "0 \<le> fst start" "fst start < fst gs" "0 \<le> snd start" "snd start < snd gs"
    by (simp_all add: in_bounds_def)
  from c have cb: "0 \<le> fst c" "fst c < fst gs" "0 \<le> snd c" "snd c < snd gs"
    by (simp_all add: in_bounds_def)
  have col: "(r, snd start) \<in> S" if "0 \<le> r" "r < fst gs" for r
  proof (rule line_closed [where P = "\<lambda>r. (r, snd start) \<in> S" and a = "fst start"
        and n = "fst gs", OF _ sb(1,2) _ _ that])
    show "(fst start, snd start) \<in> S" using start(1) by simp
  next
    fix k assume k: "(k, snd start) \<in> S" "0 \<le> k" "k + 1 < fst gs"
    from closed [OF k(1), of "(1, 0)"] k(2,3) sb(3,4)
    show "(k + 1, snd start) \<in> S" by (simp add: NEIGHBORS_MASK_def in_bounds_def)
  next
    fix k assume k: "(k, snd start) \<in> S" "0 \<le> k - 1" "k < fst gs"
    from closed [OF k(1), of "(- 1, 0)"] k(2,3) sb(3,4)
    show "(k - 1, snd start) \<in> S" by (simp add: NEIGHBORS_MASK_def in_bounds_def)
  qed
  have "(fst c, q) \<in> S" if "0 \<le> q" "q < snd gs" for q
  proof (rule line_closed [where P = "\<lambda>q. (fst c, q) \<in> S" and a = "snd start"
        and n = "snd gs", OF _ sb(3,4) _ _ that])
    show "(fst c, snd start) \<in> S" using col [OF cb(1,2)] .
  next
    fix k assume k: "(fst c, k) \<in> S" "0 \<le> k" "k + 1 < snd gs"
    from closed [OF k(1), of "(0, 1)"] k(2,3) cb(1,2)
    show "(fst c, k + 1) \<in> S" by (simp add: NEIGHBORS_MASK_def in_bounds_def)
  next
    fix k assume k: "(fst c, k) \<in> S" "0 \<le> k - 1" "k < snd gs"
    from closed [OF k(1), of "(0, - 1)"] k(2,3) cb(1,2)
    show "(fst c, k - 1) \<in> S" by (simp add: NEIGHBORS_MASK_def in_bounds_def)
  qed
  from this [OF cb(3,4)] show ?thesis by simp
qed

lemma und_empty:
  assumes "unvisited_neighbors_deltas gs vis cur = []" and "d \<in> set NEIGHBORS_MASK"
    and "in_bounds gs (fst cur + fst d, snd cur + snd d)"
  shows "(fst cur + fst d, snd cur + snd d) |\<in>| vis"
proof (rule ccontr)
  assume "(fst cur + fst d, snd cur + snd d) |\<notin>| vis"
  with assms(2,3) have "((fst cur + fst d, snd cur + snd d), d)
      \<in> set (unvisited_neighbors_deltas gs vis cur)"
    by (simp add: und_iff)
  with assms(1) show False by simp
qed

lemma dfs_inv_visited_bounds:
  "dfs_inv gs st s \<Longrightarrow> v |\<in>| dfs_visited_cells s \<Longrightarrow> in_bounds gs v"
  unfolding dfs_inv_def by blast

lemma dfs_inv_stack_visited:
  "dfs_inv gs st s \<Longrightarrow> v \<in> set (dfs_stack s) \<Longrightarrow> v |\<in>| dfs_visited_cells s"
  unfolding dfs_inv_def by blast

lemma visited_card_le:
  assumes inv: "dfs_inv gs st s" and gs: "0 \<le> fst gs" "0 \<le> snd gs"
  shows "fcard (dfs_visited_cells s) \<le> nat (fst gs * snd gs)"
proof -
  have "fset (dfs_visited_cells s) \<subseteq> {c. in_bounds gs c}"
    using dfs_inv_visited_bounds [OF inv] by auto
  from card_mono [OF finite_in_bounds this] show ?thesis
    by (simp add: fcard.rep_eq card_in_bounds [OF gs])
qed

lemma stack_length_le:
  assumes inv: "dfs_inv gs st s" and d: "distinct (dfs_stack s)"
  shows "length (dfs_stack s) \<le> fcard (dfs_visited_cells s)"
proof -
  have "set (dfs_stack s) \<subseteq> fset (dfs_visited_cells s)"
    using dfs_inv_stack_visited [OF inv] by auto
  from card_mono [OF _ this] have "card (set (dfs_stack s)) \<le> card (fset (dfs_visited_cells s))"
    by simp
  with distinct_card [OF d] show ?thesis by (simp add: fcard.rep_eq)
qed

lemma forks_inv_step:
  assumes inv: "dfs_inv gs start s" and fi: "forks_inv gs start s" and cond: "dfs_cond n s"
    and gs: "0 \<le> fst gs" "0 \<le> snd gs"
    and step: "dfs_step gs (2 * (fst gs * snd gs)) True rnd s = Inr s'"
  shows "forks_inv gs start s'"
proof -
  let ?vis = "dfs_visited_cells s" and ?st = "dfs_stack s"
  from cond have ne: "?st \<noteq> []" by (simp add: dfs_cond_def)
  from fi have st: "start |\<in>| ?vis" and dep: "dfs_current_tree_depth s = int (length ?st)"
    and dist: "distinct ?st"
    and closed: "\<And>v d. v |\<in>| ?vis \<Longrightarrow> v \<notin> set ?st \<Longrightarrow> d \<in> set NEIGHBORS_MASK \<Longrightarrow>
                   in_bounds gs (fst v + fst d, snd v + snd d) \<Longrightarrow>
                   (fst v + fst d, snd v + snd d) |\<in>| ?vis"
    unfolding forks_inv_def by blast+
  have "length ?st \<le> nat (fst gs * snd gs)"
    using stack_length_le [OF inv dist] visited_card_le [OF inv gs] by simp
  moreover have "0 \<le> fst gs * snd gs" using gs by simp
  ultimately have "int (length ?st) \<le> fst gs * snd gs" by linarith
  with dep have "dfs_current_tree_depth s \<le> fst gs * snd gs" by simp
  then have "real_of_int (dfs_current_tree_depth s) \<le> real_of_int (fst gs * snd gs)"
    by (rule iffD2 [OF of_int_le_iff])
  then have depth_ok: "real_of_int (dfs_current_tree_depth s)
      \<le> real_of_int (2 * (fst gs * snd gs)) / 2" by simp
  from step show ?thesis
  proof (cases rule: dfs_step_cases)
    case (carve nb dl)
    from carve(1) have fresh: "nb |\<notin>| ?vis" by (auto simp: und_iff)
    from carve(5) ne have st': "dfs_stack s' = ?st @ [nb]" by simp
    have nbst: "nb \<notin> set ?st" using fresh dfs_inv_stack_visited [OF inv] by blast
    have 1: "start |\<in>| dfs_visited_cells s'" using st carve(4) by simp
    have 2: "dfs_current_tree_depth s' = int (length (dfs_stack s'))"
      using carve(6) dep st' by simp
    have 3: "distinct (dfs_stack s')" using dist nbst st' by simp
    have 4: "(fst v + fst d, snd v + snd d) |\<in>| dfs_visited_cells s'"
      if "v |\<in>| dfs_visited_cells s'" "v \<notin> set (dfs_stack s')" "d \<in> set NEIGHBORS_MASK"
        "in_bounds gs (fst v + fst d, snd v + snd d)" for v d
    proof -
      from that(1,2) st' carve(4) have "v |\<in>| ?vis" "v \<notin> set ?st" by auto
      from closed [OF this that(3,4)] carve(4) show ?thesis by simp
    qed
    from 1 2 3 4 show ?thesis unfolding forks_inv_def by blast
  next
    case backtrack
    with depth_ok have und: "unvisited_neighbors_deltas gs ?vis (last ?st) = []" by blast
    have 2: "dfs_current_tree_depth s' = int (length (dfs_stack s'))"
      using backtrack(4,5) dep ne by (simp add: Suc_leI)
    have 3: "distinct (dfs_stack s')" using dist backtrack(4) by (simp add: distinct_butlast)
    have 4: "(fst v + fst d, snd v + snd d) |\<in>| dfs_visited_cells s'"
      if "v |\<in>| dfs_visited_cells s'" "v \<notin> set (dfs_stack s')" "d \<in> set NEIGHBORS_MASK"
        "in_bounds gs (fst v + fst d, snd v + snd d)" for v d
    proof (cases "v = last ?st")
      case True
      from und_empty [OF und that(3)] that(4) True backtrack(3) show ?thesis by simp
    next
      case False
      have "set ?st = insert (last ?st) (set (butlast ?st))"
        using ne by (metis append_butlast_last_id list.simps(15) rotate1.simps(2) set_rotate1)
      with that(2) False backtrack(4) have "v \<notin> set ?st" by simp
      from closed [OF _ this that(3,4)] that(1) backtrack(3) show ?thesis by simp
    qed
    from st backtrack(3) 2 3 4 show ?thesis unfolding forks_inv_def by simp
  qed
qed

lemma forks_inv_init:
  "forks_inv gs st \<lparr>dfs_connection_list = cl0, dfs_visited_cells = {|st|},
           dfs_stack = [st], dfs_current_tree_depth = 1, dfs_n_choices = 0\<rparr>"
  unfolding forks_inv_def by auto

lemma forks_inv_all_visited:
  assumes inv: "dfs_inv gs start s" and fi: "forks_inv gs start s"
    and start: "in_bounds gs start" and empty: "dfs_stack s = []"
    and gs: "0 \<le> fst gs" "0 \<le> snd gs"
  shows "int (fcard (dfs_visited_cells s)) = fst gs * snd gs"
proof -
  let ?S = "fset (dfs_visited_cells s)"
  from fi have st: "start \<in> ?S" unfolding forks_inv_def by simp
  have closed: "(fst v + fst d, snd v + snd d) \<in> ?S"
    if "v \<in> ?S" "d \<in> set NEIGHBORS_MASK" "in_bounds gs (fst v + fst d, snd v + snd d)" for v d
  proof -
    from that(1) have "v |\<in>| dfs_visited_cells s" by simp
    moreover from empty have "v \<notin> set (dfs_stack s)" by simp
    ultimately have "(fst v + fst d, snd v + snd d) |\<in>| dfs_visited_cells s"
      using fi that(2,3) unfolding forks_inv_def by blast
    then show ?thesis by simp
  qed
  have "{c. in_bounds gs c} \<subseteq> ?S"
  proof
    fix c assume "c \<in> {c. in_bounds gs c}"
    then have "in_bounds gs c" by simp
    from grid_closed [of start ?S gs c, OF st start closed this] show "c \<in> ?S" by blast
  qed
  moreover have "?S \<subseteq> {c. in_bounds gs c}"
    using dfs_inv_visited_bounds [OF inv] by auto
  ultimately have "?S = {c. in_bounds gs c}" by blast
  then have "fcard (dfs_visited_cells s) = nat (fst gs * snd gs)"
    by (simp add: fcard.rep_eq card_in_bounds [OF gs])
  moreover have "0 \<le> fst gs * snd gs" using gs by simp
  ultimately show ?thesis by simp
qed

lemma gen_dfs_forks_size:
  assumes gen: "gen_dfs gs ld n None True sc u rnd = Inr maze"
    and sc: "start_coord_ok gs sc" and pos: "0 < fst gs \<and> 0 < snd gs"
  obtains v where "meta_visited_cells (generation_meta maze) = Some v"
    "int (card v) = min (max 1 (case n of None \<Rightarrow> fst gs * snd gs | Some k \<Rightarrow> k))
                       (fst gs * snd gs)"
proof -
  let ?start = "random_start_coord gs sc u"
  let ?n = "case n of None \<Rightarrow> fst gs * snd gs | Some k \<Rightarrow> k"
  let ?P = "\<lambda>s. (dfs_inv gs ?start s \<and> forks_inv gs ?start s) \<and> count_inv ?n s"
  from pos have gs: "0 \<le> fst gs" "0 \<le> snd gs" by simp_all
  have start: "in_bounds gs ?start" by (rule random_start_coord_ok [OF sc pos])
  from gen obtain cl0 s where z: "np_zeros3 ld (fst gs) (snd gs) = Inr cl0"
    and loop0: "dfs_loop gs ?n
       (case None of None \<Rightarrow> 2 * (fst gs * snd gs) | Some k \<Rightarrow> k) True rnd
       \<lparr>dfs_connection_list = cl0, dfs_visited_cells = {|?start|},
           dfs_stack = [?start], dfs_current_tree_depth = 1,
           dfs_n_choices = 0\<rparr> = Inr s"
    and v: "meta_visited_cells (generation_meta maze) = Some (fset (dfs_visited_cells s))"
    by (rule gen_dfs_InrE)
  from loop0 have loop: "dfs_loop gs ?n (2 * (fst gs * snd gs)) True rnd
       \<lparr>dfs_connection_list = cl0, dfs_visited_cells = {|?start|},
           dfs_stack = [?start], dfs_current_tree_depth = 1,
           dfs_n_choices = 0\<rparr> = Inr s"
    by simp
  have init: "?P \<lparr>dfs_connection_list = cl0, dfs_visited_cells = {|?start|},
           dfs_stack = [?start], dfs_current_tree_depth = 1, dfs_n_choices = 0\<rparr>"
    using dfs_inv_init [OF start z] forks_inv_init [of gs ?start cl0]
    by (simp add: count_inv_def fcard.rep_eq)
  have stepP: "?P s2" if "?P s1" "dfs_cond ?n s1"
      "dfs_step gs (2 * (fst gs * snd gs)) True rnd s1 = Inr s2" for s1 s2
    using that dfs_inv_step [OF _ that(2,3)] forks_inv_step [OF _ _ that(2) gs that(3)]
      count_inv_step [OF _ that(2,3)]
    by blast
  have fin: "?P s \<and> \<not> dfs_cond ?n s"
    by (rule dfs_loop_invariant [OF loop, where P = ?P, OF init stepP])
  let ?fc = "int (fcard (dfs_visited_cells s))"
  from fin have ci: "1 \<le> ?fc" "?fc \<le> max 1 ?n" by (simp_all add: count_inv_def)
  from fin visited_card_le [OF _ gs] have "fcard (dfs_visited_cells s) \<le> nat (fst gs * snd gs)"
    by blast
  moreover have "0 \<le> fst gs * snd gs" using gs by simp
  ultimately have le: "?fc \<le> fst gs * snd gs" by linarith
  have "?fc = min (max 1 ?n) (fst gs * snd gs)"
  proof (cases "?fc < ?n")
    case False
    with ci le show ?thesis by linarith
  next
    case True
    with fin have "dfs_stack s = []" by (simp add: dfs_cond_def)
    with fin forks_inv_all_visited [OF _ _ start _ gs] have "?fc = fst gs * snd gs" by blast
    with True show ?thesis by linarith
  qed
  then have "int (card (fset (dfs_visited_cells s))) = min (max 1 ?n) (fst gs * snd gs)"
    by (simp add: fcard.rep_eq)
  from that [OF v this] show ?thesis .
qed

text \<open>
  Claim C9, as stated: the visited set never exceeds \<open>n_accessible_cells\<close> elements and its
  size equals the smaller of \<open>n_accessible_cells\<close> and the number of cells reachable within
  the depth bound.  Two runs of \<open>gen_dfs\<close> say otherwise.  With \<open>n_accessible_cells = 0\<close> the
  start cell is visited before the loop test, so the visited set has one element.  On the
  \<open>3 \<times> 3\<close> grid with \<open>do_forks = False\<close>, \<open>n_accessible_cells = 9\<close> and the default depth
  bound \<open>18 / 2\<close>, the corridor \<open>(0, 0), (0, 1), (1, 1), (1, 2), (0, 2)\<close> ends in a dead end:
  five cells are visited, although all nine cells lie within the depth bound.
\<close>

theorem gen_dfs_visited_count_off:
  "gen_dfs (2, 2) 2 (Some 0) None True (Some (0, 0)) (0, 0) (\<lambda>k. 0) =
     Inr \<lparr>connection_list = [[[False, False], [False, False]], [[False, False], [False, False]]],
          generation_meta =
            \<lparr>meta_func_name = ''gen_dfs'', meta_grid_shape = (2, 2),
             meta_start_coord = Some (0, 0), meta_n_accessible_cells = Some 0,
             meta_max_tree_depth = Some 8, meta_fully_connected = Some False,
             meta_visited_cells = Some {(0, 0)},
             meta_percolation_p = None\<rparr>\<rparr>
   \<and> \<not> int (card {(0 :: int, 0 :: int)}) \<le> 0
   \<and> gen_dfs (3, 3) 2 (Some 9) None False (Some (0, 0)) (0, 0)
       (\<lambda>k. if k = 1 \<or> k = 3 then 1 else 0) =
     Inr \<lparr>connection_list =
            [[[False, True, True], [False, False, False], [False, False, False]],
             [[True, False, False], [False, True, False], [False, False, False]]],
          generation_meta =
            \<lparr>meta_func_name = ''gen_dfs'', meta_grid_shape = (3, 3),
             meta_start_coord = Some (0, 0), meta_n_accessible_cells = Some 9,
             meta_max_tree_depth = Some 18, meta_fully_connected = Some False,
             meta_visited_cells = Some {(0, 2), (1, 2), (1, 1), (0, 1), (0, 0)},
             meta_percolation_p = None\<rparr>\<rparr>
   \<and> card {(0 :: int, 2 :: int), (1, 2), (1, 1), (0, 1), (0, 0)} = 5
   \<and> length (cells_within_depth_bound (3, 3) (0, 0) 18) = 9
   \<and> int (card {(0 :: int, 2 :: int), (1, 2), (1, 1), (0, 1), (0, 0)})
         \<noteq> min 9 (int (length (cells_within_depth_bound (3, 3) (0, 0) 18)))"
  by code_simp

text \<open>
  Claim C9, amended.  For every \<open>gen_dfs\<close> call the visited set has at least one element
  and at most \<open>max(1, n_accessible_cells)\<close> elements, so it never exceeds
  \<open>n_accessible_cells\<close> when that is at least \<open>1\<close>; the metadata records
  \<open>fully_connected\<close> exactly when the size of the visited set equals
  \<open>n_accessible_cells\<close>; and when \<open>do_forks\<close> is \<open>True\<close>, \<open>max_tree_depth\<close> is left at its
  default, the grid shape is positive and the start coordinate is \<open>None\<close> or a cell of the
  grid, the size equals \<open>min(max(1, n_accessible_cells), rows \<times> cols)\<close>: the search
  backtracks until the bound is reached or every cell is visited, and the default depth
  bound never stops it.
\<close>

theorem gen_dfs_visited_size:
  assumes "gen_dfs grid_shape lattice_dim n_accessible_cells max_tree_depth do_forks
             start_coord u rnd = Inr maze"
  shows "\<exists>v. meta_visited_cells (generation_meta maze) = Some v
           \<and> 1 \<le> card v
           \<and> int (card v) \<le> max 1 (case n_accessible_cells of
                                        None \<Rightarrow> fst grid_shape * snd grid_shape | Some k \<Rightarrow> k)
           \<and> meta_fully_connected (generation_meta maze) =
               Some (int (card v) = (case n_accessible_cells of
                                       None \<Rightarrow> fst grid_shape * snd grid_shape | Some k \<Rightarrow> k))
           \<and> (do_forks \<and> max_tree_depth = None \<and> start_coord_ok grid_shape start_coord
                \<and> 0 < fst grid_shape \<and> 0 < snd grid_shape
              \<longrightarrow> int (card v) =
                    min (max 1 (case n_accessible_cells of
                                  None \<Rightarrow> fst grid_shape * snd grid_shape | Some k \<Rightarrow> k))
                        (fst grid_shape * snd grid_shape))"
proof -
  let ?n = "case n_accessible_cells of
              None \<Rightarrow> fst grid_shape * snd grid_shape | Some k \<Rightarrow> k"
  from gen_dfs_count [OF assms] obtain v where
    v: "meta_visited_cells (generation_meta maze) = Some v"
    and c: "1 \<le> card v" "int (card v) \<le> max 1 ?n"
    and f: "meta_fully_connected (generation_meta maze) = Some (int (card v) = ?n)"
    by metis
  have "int (card v) = min (max 1 ?n) (fst grid_shape * snd grid_shape)"
    if h: "do_forks \<and> max_tree_depth = None \<and> start_coord_ok grid_shape start_coord
           \<and> 0 < fst grid_shape \<and> 0 < snd grid_shape"
  proof -
    from assms h have g: "gen_dfs grid_shape lattice_dim n_accessible_cells None True
             start_coord u rnd = Inr maze" by simp
    from h have ok: "start_coord_ok grid_shape start_coord"
      and pos: "0 < fst grid_shape \<and> 0 < snd grid_shape" by simp_all
    from gen_dfs_forks_size [OF g ok pos] obtain w where
      "meta_visited_cells (generation_meta maze) = Some w"
      "int (card w) = min (max 1 ?n) (fst grid_shape * snd grid_shape)" by metis
    with v show ?thesis by simp
  qed
  with v c f show ?thesis by blast
qed

theorem gen_dfs_visited_size_witness:
  "start_coord_ok (2, 2) (Some (0, 0)) \<and> 0 < fst (2 :: int, 2 :: int)
   \<and> 0 < snd (2 :: int, 2 :: int)
   \<and> (\<exists>maze. gen_dfs (2, 2) 2 None None True (Some (0, 0)) (0, 0) (\<lambda>k. 0) = Inr maze
        \<and> (\<exists>v. meta_visited_cells (generation_meta maze) = Some v
              \<and> 1 \<le> card v
              \<and> meta_fully_connected (generation_meta maze) = Some (int (card v) = 4)
              \<and> int (card v) = 4))"
proof -
  have g: "gen_dfs (2, 2) 2 None None True (Some (0, 0)) (0, 0) (\<lambda>k. 0) =
    Inr \<lparr>connection_list = [[[False, True], [False, False]], [[True, False], [True, False]]],
          generation_meta =
            \<lparr>meta_func_name = ''gen_dfs'', meta_grid_shape = (2, 2),
             meta_start_coord = Some (0, 0), meta_n_accessible_cells = Some 4,
             meta_max_tree_depth = Some 8, meta_fully_connected = Some True,
             meta_visited_cells = Some {(0, 0), (0, 1), (1, 1), (1, 0)},
             meta_percolation_p = None\<rparr>\<rparr>"
    by code_simp
  have ok: "start_coord_ok (2, 2) (Some (0, 0))"
    by (simp add: start_coord_ok_def in_bounds_def)
  from gen_dfs_visited_size [OF g] ok obtain v where
    "meta_visited_cells (generation_meta
        \<lparr>connection_list = [[[False, True], [False, False]], [[True, False], [True, False]]],
          generation_meta =
            \<lparr>meta_func_name = ''gen_dfs'', meta_grid_shape = (2, 2),
             meta_start_coord = Some (0, 0), meta_n_accessible_cells = Some 4,
             meta_max_tree_depth = Some 8, meta_fully_connected = Some True,
             meta_visited_cells = Some {(0, 0), (0, 1), (1, 1), (1, 0)},
             meta_percolation_p = None\<rparr>\<rparr>) = Some v"
    "1 \<le> card v" "int (card v) = 4"
    by auto
  with g ok show ?thesis by auto
qed

end
